theory Spec2Isabelle
  imports Complex_Main
begin

section \<open>PathFinder: grid rasterisation and path queries\<close>

text \<open>
  A shallow embedding of the class \<open>PathFinder\<close>. JavaScript numbers that hold
  coordinates and heights are modelled as reals (finite values); the only place where
  the source produces a NaN from finite inputs, the division of the centre by an empty
  mesh count, is modelled by an absent vector. Integer conversions written \<open>>> 0\<close> in
  the source are modelled by \<open>toInt32\<close> with its wrap-around. Where a result depends
  on the rounding of double precision (the interpolated heights of a path) the rounding
  is a parameter \<open>rnd\<close> of the model, and the distance that the rendering library
  computes in double precision is a parameter \<open>D\<close>.
\<close>

subsection \<open>Values\<close>

datatype Vector3 = Vector3 (vx: real) (vy: real) (vz: real)

definition Zero :: Vector3 where
  "Zero = Vector3 0 0 0"

definition v3_add :: "Vector3 \<Rightarrow> Vector3 \<Rightarrow> Vector3" where
  "v3_add a b = Vector3 (vx a + vx b) (vy a + vy b) (vz a + vz b)"

definition v3_subtract :: "Vector3 \<Rightarrow> Vector3 \<Rightarrow> Vector3" where
  "v3_subtract a b = Vector3 (vx a - vx b) (vy a - vy b) (vz a - vz b)"

datatype error = RangeError | TypeError

text \<open>
  \<open>n >> 0\<close>: the number is truncated towards zero, reduced modulo \<open>2 ^ 32\<close> and read as
  a signed 32-bit integer.
\<close>

definition toInt32 :: "real \<Rightarrow> int" where
  "toInt32 r =
     (let t = (if r < 0 then \<lceil>r\<rceil> else \<lfloor>r\<rfloor>);
          m = t mod 2 ^ 32
      in if 2 ^ 31 \<le> m then m - 2 ^ 32 else m)"

text \<open>The truncation the specification speaks of, with no wrap-around.\<close>

definition truncateNumber :: "real \<Rightarrow> int" where
  "truncateNumber r = (if r < 0 then \<lceil>r\<rceil> else \<lfloor>r\<rfloor>)"

subsection \<open>Meshes, rays and picking results\<close>

text \<open>
  A mesh enters \<open>fill\<close> through its bounding information (read after the world matrix
  has been recomputed) and through the ray intersection of the rendering library, which
  is a parameter \<open>I\<close> of the model: \<open>I r ms\<close> is \<open>r.intersectsMeshes(ms, false)\<close>.
  The centre of a mesh's box is a vector; the centre of the combined box may be the
  all-NaN vector, modelled by \<open>None\<close>.
\<close>

record 'c BoundingInfo =
  minimum :: Vector3
  maximum :: Vector3
  centerWorld :: 'c

record AbstractMesh =
  meshBoundingInfo :: "Vector3 BoundingInfo"

record Ray =
  origin :: "Vector3 option"
  direction :: Vector3
  rayLength :: real

record PickingInfo =
  hit :: bool
  pickedPoint :: "Vector3 option"

subsection \<open>The graph of the search library\<close>

record GridNode =
  node_x :: nat
  node_y :: nat
  weight :: "nat option"
  point :: "Vector3 option"

record Graph =
  grid :: "GridNode list list"
  diagonal :: bool

text \<open>
  Modelled from the spec: the constructor \<open>Graph\<close> of the imported search library,
  whose source is not part of the repository. The graph has one node per cell of the
  mask it is given; a node carries its grid coordinate, the mask's value as its cost and
  no point yet.
\<close>

definition newGraph :: "nat option list list \<Rightarrow> bool \<Rightarrow> Graph" where
  "newGraph gridIn diag =
     \<lparr> grid = map (\<lambda>(i, row). map (\<lambda>(j, c).
                  \<lparr> node_x = i, node_y = j, weight = c, point = None \<rparr>) (enumerate 0 row))
                (enumerate 0 gridIn),
       diagonal = diag \<rparr>"

definition nodeAt :: "Graph \<Rightarrow> nat \<times> nat \<Rightarrow> GridNode option" where
  "nodeAt g c =
     (if fst c < length (grid g) \<and> snd c < length (grid g ! fst c)
      then Some (grid g ! fst c ! snd c) else None)"

definition adjacent :: "bool \<Rightarrow> nat \<times> nat \<Rightarrow> nat \<times> nat \<Rightarrow> bool" where
  "adjacent diag a b =
     (let dx = \<bar>int (fst a) - int (fst b)\<bar>; dy = \<bar>int (snd a) - int (snd b)\<bar>
      in if diag then max dx dy = 1 else dx + dy = 1)"

text \<open>
  Modelled from the spec: the edges of the graph. Two nodes are joined when their cells
  are adjacent (orthogonally, unless diagonal movement is enabled) and both are
  walkable, that is, both carry the cost 1.
\<close>

definition edge :: "Graph \<Rightarrow> nat \<times> nat \<Rightarrow> nat \<times> nat \<Rightarrow> bool" where
  "edge g a b =
     (case (nodeAt g a, nodeAt g b) of
        (Some m, Some n) \<Rightarrow> adjacent (diagonal g) a b \<and> weight m = Some 1 \<and> weight n = Some 1
      | _ \<Rightarrow> False)"

subsection \<open>The path finder's state\<close>

record PathFinder =
  graph :: "Graph option"
  width :: int
  height :: int
  buffer :: "nat option list list"
  points :: "Vector3 option list"
  boundingInfo :: "Vector3 option BoundingInfo option"

text \<open>
  \<open>rebuildBuffers\<close>: \<open>new Array(n)\<close> raises a RangeError for a negative length; the
  array of \<open>width\<close> slots has each slot \<open>i < height\<close> assigned a fresh array of
  \<open>height\<close> holes (\<open>None\<close>), and \<open>width = height\<close> by the first assignment, so every
  slot is assigned. The point array is reset to the empty array.
\<close>

definition rebuildBuffers :: "real \<Rightarrow> PathFinder \<Rightarrow> error + PathFinder" where
  "rebuildBuffers sz pf =
     (let w = toInt32 sz in
      if w < 0 then Inl RangeError
      else Inr (pf\<lparr> width := w, height := w,
                    buffer := map (\<lambda>i. replicate (nat w) None) [0..<nat w],
                    points := [] \<rparr>))"

text \<open>
  The object before the constructor's body runs (\<open>graph = null\<close>, \<open>points = []\<close>, the
  other fields not yet assigned), and the constructor, which only calls
  \<open>rebuildBuffers\<close>.
\<close>

definition initial :: PathFinder where
  "initial = \<lparr> graph = None, width = 0, height = 0, buffer = [], points = [],
               boundingInfo = None \<rparr>"

definition newPathFinder :: "real \<Rightarrow> error + PathFinder" where
  "newPathFinder sz = rebuildBuffers sz initial"

text \<open>A cell is walkable when the mask holds 1 there.\<close>

definition cellWalkable :: "PathFinder \<Rightarrow> nat \<Rightarrow> nat \<Rightarrow> bool" where
  "cellWalkable pf i j = (buffer pf ! i ! j = Some 1)"

subsection \<open>fill\<close>

text \<open>
  One round of \<open>castMeshes.forEach\<close>: the running minimum, maximum and sum of centres.
\<close>

definition accumulate ::
  "'a AbstractMesh_scheme \<Rightarrow> Vector3 \<times> Vector3 \<times> Vector3 \<Rightarrow> Vector3 \<times> Vector3 \<times> Vector3" where
  "accumulate cm acc =
     (case acc of (bmin, bmax, average) \<Rightarrow>
        let cb = meshBoundingInfo cm in
        (Vector3 (min (vx bmin) (vx (minimum cb)))
                 (min (vy bmin) (vy (minimum cb)))
                 (min (vz bmin) (vz (minimum cb))),
         Vector3 (max (vx bmax) (vx (maximum cb)))
                 (max (vy bmax) (vy (maximum cb)))
                 (max (vz bmax) (vz (maximum cb))),
         v3_add average (centerWorld cb)))"

text \<open>
  The box \<open>b\<close> after the loop and the division of the sum by \<open>castMeshes.length\<close>:
  the box starts as the box of the origin alone; with no mesh the division is 0 / 0.
\<close>

definition combinedBounds :: "'a AbstractMesh_scheme list \<Rightarrow> Vector3 option BoundingInfo" where
  "combinedBounds castMeshes =
     (case fold accumulate castMeshes (Zero, Zero, Zero) of (bmin, bmax, average) \<Rightarrow>
        \<lparr> minimum = bmin, maximum = bmax,
          centerWorld =
            (if length castMeshes = 0 then None
             else Some (Vector3 (vx average / real (length castMeshes))
                                (vy average / real (length castMeshes))
                                (vz average / real (length castMeshes)))) \<rparr>)"

text \<open>\<open>a || d\<close> on an optional number: the default replaces an absent or zero value.\<close>

definition orDefault :: "real option \<Rightarrow> real \<Rightarrow> real" where
  "orDefault a d = (case a of None \<Rightarrow> d | Some v \<Rightarrow> if v = 0 then d else v)"

definition extentX :: "'c BoundingInfo \<Rightarrow> real" where
  "extentX b = \<bar>vx (maximum b)\<bar> + \<bar>vx (minimum b)\<bar>"

definition extentY :: "'c BoundingInfo \<Rightarrow> real" where
  "extentY b = \<bar>vz (maximum b)\<bar> + \<bar>vz (minimum b)\<bar>"

definition startCorner :: "Vector3 option BoundingInfo \<Rightarrow> Vector3 option" where
  "startCorner b =
     map_option (\<lambda>c. v3_subtract c (Vector3 (extentX b / 2) 0 (extentY b / 2))) (centerWorld b)"

text \<open>The ray cast for the cell \<open>(i, j)\<close> of a grid of \<open>w\<close> by \<open>h\<close> cells.\<close>

definition cellRay ::
  "Vector3 option BoundingInfo \<Rightarrow> int \<Rightarrow> int \<Rightarrow> real option \<Rightarrow> real option \<Rightarrow> nat \<Rightarrow> nat \<Rightarrow> Ray" where
  "cellRay b w h rayHeight rayLen i j =
     (let rx = (real i * extentX b) / real_of_int w;
          ry = (real j * extentY b) / real_of_int h
      in \<lparr> origin = map_option (\<lambda>s. v3_add s
                        (Vector3 rx (orDefault rayHeight (vy (maximum b) + 10)) ry))
                      (startCorner b),
           direction = Vector3 0 (- 1) 0,
           rayLength = orDefault rayLen 100 \<rparr>)"

text \<open>
  The body of the inner loop: the first picking result that is a hit decides what is
  pushed on the point array and what is written in the mask. The mask has been rebuilt
  with \<open>w\<close> rows of \<open>h\<close> cells, so the write is in range.
\<close>

definition cellStep ::
  "PickingInfo option \<Rightarrow> nat \<Rightarrow> nat \<Rightarrow>
   Vector3 option list \<times> nat option list list \<Rightarrow> Vector3 option list \<times> nat option list list" where
  "cellStep found i j st =
     (case st of (pts, buf) \<Rightarrow>
        (case found of
           Some h \<Rightarrow> (pts @ [pickedPoint h], buf[i := (buf ! i)[j := Some 1]])
         | None \<Rightarrow> (pts @ [None], buf[i := (buf ! i)[j := Some 0]])))"

definition castCells ::
  "(Ray \<Rightarrow> 'a AbstractMesh_scheme list \<Rightarrow> PickingInfo list) \<Rightarrow> 'a AbstractMesh_scheme list \<Rightarrow>
   (nat \<Rightarrow> nat \<Rightarrow> Ray) \<Rightarrow> nat \<Rightarrow> nat \<Rightarrow>
   Vector3 option list \<times> nat option list list \<Rightarrow> Vector3 option list \<times> nat option list list" where
  "castCells I castMeshes ray w h st =
     fold (\<lambda>i. fold (\<lambda>j. cellStep (find hit (I (ray i j) castMeshes)) i j) [0..<h]) [0..<w] st"

text \<open>Reading an array: an index out of range gives \<open>undefined\<close>.\<close>

definition readPoint :: "Vector3 option list \<Rightarrow> nat \<Rightarrow> Vector3 option" where
  "readPoint pts k = (if k < length pts then pts ! k else None)"

text \<open>
  The loop that sets the points of the nodes: node \<open>(i, j)\<close> receives the entry
  \<open>j * width + i\<close> of the point array. The graph has been built from the mask, so the
  node exists.
\<close>

definition setNodePoint :: "nat \<Rightarrow> nat \<Rightarrow> Vector3 option \<Rightarrow> GridNode list list \<Rightarrow> GridNode list list" where
  "setNodePoint i j p gr = gr[i := (gr ! i)[j := (gr ! i ! j)\<lparr> point := p \<rparr>]]"

definition setPoints :: "Vector3 option list \<Rightarrow> nat \<Rightarrow> nat \<Rightarrow> Graph \<Rightarrow> Graph" where
  "setPoints pts w h g =
     g\<lparr> grid := fold (\<lambda>i. fold (\<lambda>j. setNodePoint i j (readPoint pts (j * w + i))) [0..<h])
                    [0..<w] (grid g) \<rparr>"

definition fill ::
  "(Ray \<Rightarrow> 'a AbstractMesh_scheme list \<Rightarrow> PickingInfo list) \<Rightarrow> 'a AbstractMesh_scheme list \<Rightarrow>
   real option \<Rightarrow> real option \<Rightarrow> PathFinder \<Rightarrow> error + PathFinder" where
  "fill I castMeshes rayHeight rayLen pf =
     (case rebuildBuffers (real_of_int (width pf)) pf of
        Inl e \<Rightarrow> Inl e
      | Inr pf1 \<Rightarrow>
          let b = combinedBounds castMeshes;
              w = nat (width pf1);
              h = nat (height pf1);
              st = castCells I castMeshes
                     (cellRay b (width pf1) (height pf1) rayHeight rayLen) w h
                     (points pf1, buffer pf1);
              g = setPoints (fst st) w h (newGraph (snd st) False)
          in Inr (pf1\<lparr> graph := Some g, buffer := snd st, points := fst st,
                        boundingInfo := Some b \<rparr>))"

subsection \<open>fromTo\<close>

text \<open>
  The two scanning loops: the index of the first point that is present and has the
  given \<open>x\<close> and \<open>z\<close>, counted from \<open>i\<close>.
\<close>

fun scanPoints :: "Vector3 option list \<Rightarrow> Vector3 \<Rightarrow> nat \<Rightarrow> nat option" where
  "scanPoints [] v i = None"
| "scanPoints (p # ps) v i =
     (case p of
        None \<Rightarrow> scanPoints ps v (Suc i)
      | Some q \<Rightarrow> if vx q = vx v \<and> vz q = vz v then Some i else scanPoints ps v (Suc i))"

definition resolveIndex :: "Vector3 option list \<Rightarrow> Vector3 \<Rightarrow> nat" where
  "resolveIndex pts v = (case scanPoints pts v 0 of None \<Rightarrow> 0 | Some i \<Rightarrow> i)"

text \<open>
  What the specification says of the same resolution: the lowest index of a sampled
  point with exactly the endpoint's \<open>x\<close> and \<open>z\<close>, and 0 when there is none.
\<close>

definition matchesAt :: "Vector3 option list \<Rightarrow> Vector3 \<Rightarrow> nat \<Rightarrow> bool" where
  "matchesAt pts v i =
     (i < length pts \<and> (case pts ! i of None \<Rightarrow> False | Some q \<Rightarrow> vx q = vx v \<and> vz q = vz v))"

definition resolveIndex_spec :: "Vector3 option list \<Rightarrow> Vector3 \<Rightarrow> nat" where
  "resolveIndex_spec pts v =
     (if \<exists>i. matchesAt pts v i then (LEAST i. matchesAt pts v i) else 0)"

text \<open>
  \<open>(i / w) >> 0\<close> and \<open>(i % h) >> 0\<close> for an array index \<open>i\<close>: a zero divisor gives NaN or
  Infinity, which \<open>>> 0\<close> turns into 0; the remainder takes the sign of the dividend.
\<close>

definition divShr0 :: "nat \<Rightarrow> int \<Rightarrow> int" where
  "divShr0 i w = (if w = 0 then 0 else toInt32 (real i / real_of_int w))"

definition modShr0 :: "nat \<Rightarrow> int \<Rightarrow> int" where
  "modShr0 i h = (if h = 0 then 0 else toInt32 (real_of_int (int i mod \<bar>h\<bar>)))"

definition gridCoords :: "PathFinder \<Rightarrow> Vector3 \<Rightarrow> Vector3 \<Rightarrow> (int \<times> int) \<times> (int \<times> int)" where
  "gridCoords pf fromP toP =
     (let fromIndex = resolveIndex (points pf) fromP;
          toIndex = resolveIndex (points pf) toP;
          sx = divShr0 fromIndex (width pf);
          sy = modShr0 fromIndex (height pf);
          ex = divShr0 toIndex (width pf);
          ey = modShr0 toIndex (width pf)
      in ((sx, sy), (ex, ey)))"

text \<open>
  Modelled from the spec: \<open>Scalar.Lerp\<close> of the rendering library, the linear
  interpolation \<open>start + (end - start) * amount\<close> between two values. The library
  computes it in double precision: every operation is followed by the rounding \<open>rnd\<close>
  of its result to a double (the identity for exact arithmetic).
\<close>

definition Lerp :: "(real \<Rightarrow> real) \<Rightarrow> real \<Rightarrow> real \<Rightarrow> real \<Rightarrow> real" where
  "Lerp rnd a b t = rnd (a + rnd (rnd (b - a) * t))"

text \<open>
  The projection of a node path (\<open>path.forEach\<close>): a node without a point is passed
  over; the others give a vector with the point's \<open>x\<close>, the interpolated height and,
  as third component, the point's \<open>y\<close>. The quotient \<open>index / path.length\<close> is
  rounded like every other result.
\<close>

definition emit ::
  "(real \<Rightarrow> real) \<Rightarrow> Vector3 \<Rightarrow> Vector3 \<Rightarrow> nat \<Rightarrow> nat \<times> GridNode \<Rightarrow>
   Vector3 list \<Rightarrow> Vector3 list" where
  "emit rnd fromP toP len ip result =
     (case point (snd ip) of
        None \<Rightarrow> result
      | Some q \<Rightarrow> result @ [Vector3 (vx q)
                    (Lerp rnd (vy fromP) (vy toP) (rnd (real (fst ip) / real len))) (vy q)])"

definition toWorldPath ::
  "(real \<Rightarrow> real) \<Rightarrow> GridNode list \<Rightarrow> Vector3 \<Rightarrow> Vector3 \<Rightarrow> Vector3 list" where
  "toWorldPath rnd path fromP toP =
     fold (emit rnd fromP toP (length path)) (enumerate 0 path) []"

text \<open>
  \<open>this.graph.grid[i][j]\<close>: a TypeError when the graph is null or the row is missing,
  \<open>undefined\<close> when the row has no such entry.
\<close>

definition gridAt :: "Graph \<Rightarrow> int \<times> int \<Rightarrow> error + GridNode option" where
  "gridAt g c =
     (if 0 \<le> fst c \<and> nat (fst c) < length (grid g)
      then Inr (if 0 \<le> snd c \<and> nat (snd c) < length (grid g ! nat (fst c))
                then Some (grid g ! nat (fst c) ! nat (snd c)) else None)
      else Inl TypeError)"

text \<open>
  \<open>fromTo\<close>, with the search of the imported library as the parameter \<open>search\<close>.
\<close>

definition fromTo ::
  "(Graph \<Rightarrow> GridNode option \<Rightarrow> GridNode option \<Rightarrow> error + GridNode list) \<Rightarrow>
   (real \<Rightarrow> real) \<Rightarrow> PathFinder \<Rightarrow> Vector3 \<Rightarrow> Vector3 \<Rightarrow> error + Vector3 list" where
  "fromTo search rnd pf fromP toP =
     (case gridCoords pf fromP toP of (s, e) \<Rightarrow>
        (case graph pf of
           None \<Rightarrow> Inl TypeError
         | Some g \<Rightarrow>
             (case gridAt g s of
                Inl err \<Rightarrow> Inl err
              | Inr start \<Rightarrow>
                  (case gridAt g e of
                     Inl err \<Rightarrow> Inl err
                   | Inr end \<Rightarrow>
                       (case search g start end of
                          Inl err \<Rightarrow> Inl err
                        | Inr path \<Rightarrow> Inr (toWorldPath rnd path fromP toP))))))"

subsection \<open>findNearestPoint\<close>

definition MAX_VALUE :: real where
  "MAX_VALUE = 2 ^ 1024 - 2 ^ 971"

text \<open>
  \<open>Vector3.Distance\<close> belongs to the rendering library and computes in double
  precision; it is the parameter \<open>D\<close>: \<open>D p q\<close> is \<open>Some d\<close> when the computed distance
  is the number \<open>d\<close>, and \<open>None\<close> when it is Infinity (the squares overflowed) or NaN.
  In both of these cases the comparison \<open>d < lastDistance\<close> is false.
\<close>

definition nearer ::
  "(Vector3 \<Rightarrow> Vector3 \<Rightarrow> real option) \<Rightarrow> Vector3 \<Rightarrow> Vector3 option \<Rightarrow>
   real \<times> Vector3 \<Rightarrow> real \<times> Vector3" where
  "nearer D pt p st =
     (case st of (lastDistance, nearest) \<Rightarrow>
        (case p of
           None \<Rightarrow> (lastDistance, nearest)
         | Some q \<Rightarrow>
             (case D q pt of
                None \<Rightarrow> (lastDistance, nearest)
              | Some d \<Rightarrow> if d < lastDistance then (d, q) else (lastDistance, nearest))))"

definition findNearestPoint ::
  "(Vector3 \<Rightarrow> Vector3 \<Rightarrow> real option) \<Rightarrow> PathFinder \<Rightarrow> Vector3 \<Rightarrow> Vector3" where
  "findNearestPoint D pf pt = snd (fold (nearer D pt) (points pf) (MAX_VALUE, pt))"

text \<open>What the specification calls the Euclidean distance, over the reals.\<close>

definition euclidean :: "Vector3 \<Rightarrow> Vector3 \<Rightarrow> real" where
  "euclidean a b =
     sqrt ((vx a - vx b) * (vx a - vx b) + (vy a - vy b) * (vy a - vy b)
           + (vz a - vz b) * (vz a - vz b))"

subsection \<open>Example inputs\<close>

text \<open>A path finder of size 2 whose first cell had no hit.\<close>

definition sampledFinder :: PathFinder where
  "sampledFinder =
     \<lparr> graph = None, width = 2, height = 2,
       buffer = [[Some 0, Some 1], [Some 1, Some 1]],
       points = [None, Some (Vector3 1 0 1), Some (Vector3 1 5 1), Some (Vector3 2 0 2)],
       boundingInfo = None \<rparr>"

text \<open>A path finder as the constructor leaves it for the size 2.\<close>

definition freshFinder :: PathFinder where
  "freshFinder =
     \<lparr> graph = None, width = 2, height = 2,
       buffer = [[None, None], [None, None]], points = [], boundingInfo = None \<rparr>"

text \<open>
  Three meshes: one whose box is centred on the origin, one whose box lies away from the
  origin, and one whose box has no extent along \<open>x\<close>.
\<close>

definition centredMesh :: AbstractMesh where
  "centredMesh =
     \<lparr> meshBoundingInfo = \<lparr> minimum = Vector3 (- 1) 0 (- 1), maximum = Vector3 1 0 1,
                            centerWorld = Vector3 0 0 0 \<rparr> \<rparr>"

definition offsetMesh :: AbstractMesh where
  "offsetMesh =
     \<lparr> meshBoundingInfo = \<lparr> minimum = Vector3 1 1 1, maximum = Vector3 3 3 3,
                            centerWorld = Vector3 2 2 2 \<rparr> \<rparr>"

definition flatMesh :: AbstractMesh where
  "flatMesh =
     \<lparr> meshBoundingInfo = \<lparr> minimum = Vector3 0 0 (- 1), maximum = Vector3 0 0 1,
                            centerWorld = Vector3 0 0 0 \<rparr> \<rparr>"

text \<open>
  A ray intersection for the examples: with at least one mesh, a ray whose origin has
  \<open>x \<le> 0\<close> and \<open>0 \<le> z\<close> meets a surface at height 0 below its origin; any other ray
  meets nothing.
\<close>

definition quadrantSurface :: "Ray \<Rightarrow> AbstractMesh list \<Rightarrow> PickingInfo list" where
  "quadrantSurface r castMeshes =
     (case origin r of
        None \<Rightarrow> []
      | Some p \<Rightarrow>
          if castMeshes \<noteq> [] \<and> vx p \<le> 0 \<and> 0 \<le> vz p
          then [\<lparr> hit = True, pickedPoint = Some (Vector3 (vx p) 0 (vz p)) \<rparr>]
          else [])"

text \<open>
  A computed distance for the examples. The square of a difference is 0 when it is at
  most \<open>2 ^ - 1075\<close> (it underflows) and exact otherwise; a sum of squares beyond
  \<open>MAX_VALUE\<close> is Infinity, any other gives its square root. It is used only at
  inputs where every one of these results is a double, so that it agrees with the
  computation in double precision there.
\<close>

definition squared :: "real \<Rightarrow> real" where
  "squared d = (if d * d \<le> 1 / 2 ^ 1075 then 0 else d * d)"

definition computedDistance :: "Vector3 \<Rightarrow> Vector3 \<Rightarrow> real option" where
  "computedDistance a b =
     (let s = squared (vx a - vx b) + squared (vy a - vy b) + squared (vz a - vz b)
      in if MAX_VALUE < s then None else Some (sqrt s))"

text \<open>A point very close to the origin: the square of its \<open>x\<close> underflows.\<close>

definition tinyPoint :: Vector3 where
  "tinyPoint = Vector3 (1 / 2 ^ 600) 0 0"

section \<open>Allocation\<close>

lemma toInt32_small:
  assumes "0 \<le> r" "r < 2 ^ 31"
  shows "toInt32 r = \<lfloor>r\<rfloor>"
proof -
  have a: "0 \<le> \<lfloor>r\<rfloor>" using assms(1) by simp
  have "\<lfloor>r\<rfloor> < 2 ^ 31" using assms(2) by (simp add: floor_less_iff)
  then have b: "\<lfloor>r\<rfloor> mod 2 ^ 32 = \<lfloor>r\<rfloor>" using a by simp
  show ?thesis using assms(1) b \<open>\<lfloor>r\<rfloor> < 2 ^ 31\<close>
    by (simp add: toInt32_def Let_def)
qed

lemma toInt32_neg_small:
  assumes "- 1 < r" "r \<le> 0"
  shows "toInt32 r = 0"
proof -
  have "\<lceil>r\<rceil> = 0" using assms by (simp add: ceiling_eq_iff)
  moreover have "r = 0 \<Longrightarrow> \<lfloor>r\<rfloor> = 0" by simp
  ultimately show ?thesis using assms by (auto simp add: toInt32_def Let_def)
qed

lemma toInt32_negative:
  assumes "- (2 ^ 31) - 1 < r" "r \<le> - 1"
  shows "toInt32 r = \<lceil>r\<rceil>" "toInt32 r < 0"
proof -
  have p: "(2::int) ^ 32 = 4294967296" "(2::int) ^ 31 = 2147483648" by simp_all
  have a: "\<lceil>r\<rceil> \<le> - 1" using assms(2) by (simp add: ceiling_le_iff)
  have "- 2147483649 < r" using assms(1) by simp
  then have b: "- 2147483648 \<le> \<lceil>r\<rceil>" by linarith
  have "(\<lceil>r\<rceil> + 4294967296) mod 4294967296 = \<lceil>r\<rceil> + 4294967296"
    by (rule mod_pos_pos_trivial) (use a b in linarith)+
  then have c: "\<lceil>r\<rceil> mod 4294967296 = \<lceil>r\<rceil> + 4294967296"
    by simp
  have d: "r < 0" using assms(2) by linarith
  have "toInt32 r = (if 2147483648 \<le> \<lceil>r\<rceil> + 4294967296 then \<lceil>r\<rceil> + 4294967296 - 4294967296 else \<lceil>r\<rceil> + 4294967296)"
    unfolding toInt32_def Let_def p using d c by simp
  also have "\<dots> = \<lceil>r\<rceil>"
  proof -
    have e: "2147483648 \<le> \<lceil>r\<rceil> + 4294967296" using b by linarith
    show ?thesis unfolding if_P [OF e] by simp
  qed
  finally show "toInt32 r = \<lceil>r\<rceil>" .
  then show "toInt32 r < 0" using a by linarith
qed

text \<open>
  Claim C6, as the code has it: for every size \<open>n\<close> with \<open>0 < n < 2 ^ 31\<close>,
  \<open>rebuildBuffers\<close> returns; width and height are both the truncation of \<open>n\<close>; the
  mask has width rows of height cells, none of them set and so none walkable; the
  point array is empty (it is not sized \<open>width * height\<close>: \<open>fill\<close> grows it by
  pushing); the graph and the bounds are left as they were.
\<close>

theorem rebuildBuffers_allocates:
  assumes "0 < n" "n < 2 ^ 31"
  shows "\<exists>pf'. rebuildBuffers n pf = Inr pf' \<and>
           width pf' = truncateNumber n \<and> height pf' = truncateNumber n \<and>
           length (buffer pf') = nat (width pf') \<and>
           (\<forall>i < nat (width pf'). length (buffer pf' ! i) = nat (height pf') \<and>
              (\<forall>j < nat (height pf'). buffer pf' ! i ! j = None \<and> \<not> cellWalkable pf' i j)) \<and>
           points pf' = [] \<and> graph pf' = graph pf \<and> boundingInfo pf' = boundingInfo pf"
proof -
  have t: "toInt32 n = \<lfloor>n\<rfloor>" using assms by (simp add: toInt32_small)
  have f: "0 \<le> \<lfloor>n\<rfloor>" using assms by simp
  show ?thesis using assms t f
    by (simp add: rebuildBuffers_def Let_def truncateNumber_def cellWalkable_def)
qed

text \<open>The same at size 2, on a fresh object.\<close>

theorem rebuildBuffers_allocates_witness:
  "\<exists>pf'. rebuildBuffers 2 initial = Inr pf' \<and>
           width pf' = truncateNumber 2 \<and> height pf' = truncateNumber 2 \<and>
           length (buffer pf') = nat (width pf') \<and>
           (\<forall>i < nat (width pf'). length (buffer pf' ! i) = nat (height pf') \<and>
              (\<forall>j < nat (height pf'). buffer pf' ! i ! j = None \<and> \<not> cellWalkable pf' i j)) \<and>
           points pf' = [] \<and> graph pf' = graph initial \<and> boundingInfo pf' = boundingInfo initial"
  using rebuildBuffers_allocates [of 2 initial] by simp

text \<open>
  Claim C6 as stated fails: at size 2 the point array has length 0, not
  \<open>width * height = 4\<close>; and at size \<open>2 ^ 31\<close> the conversion wraps to a negative
  width, for which \<open>new Array\<close> raises.
\<close>

theorem rebuildBuffers_points_counterexample:
  "(case rebuildBuffers 2 initial of
      Inl e \<Rightarrow> False
    | Inr pf' \<Rightarrow> width pf' = 2 \<and> height pf' = 2 \<and> length (points pf') = 0 \<and>
        length (points pf') \<noteq> nat (width pf' * height pf'))
   \<and> rebuildBuffers (2 ^ 31) initial = Inl RangeError"
  by (simp add: rebuildBuffers_def toInt32_def initial_def)

text \<open>
  Claim C7, as the code has it: a non-positive size that truncates to zero
  (\<open>- 1 < s \<le> 0\<close>) gives an empty buffer and no exception; a size from \<open>- 1\<close> down to
  \<open>- 2 ^ 31\<close> gives a negative width, and \<open>new Array\<close> raises a RangeError.
\<close>

theorem rebuildBuffers_nonpositive:
  "(- 1 < s \<and> s \<le> 0 \<longrightarrow>
      rebuildBuffers s pf = Inr (pf\<lparr> width := 0, height := 0, buffer := [], points := [] \<rparr>)) \<and>
   (- (2 ^ 31) - 1 < s \<and> s \<le> - 1 \<longrightarrow> rebuildBuffers s pf = Inl RangeError)"
  using toInt32_neg_small [of s] toInt32_negative(2) [of s]
  by (auto simp add: rebuildBuffers_def Let_def)

text \<open>The same at the sizes 0 and \<open>- 3\<close>.\<close>

theorem rebuildBuffers_nonpositive_witness:
  "((- 1 :: real) < 0 \<and> (0 :: real) \<le> 0 \<and>
      rebuildBuffers 0 initial = Inr (initial\<lparr> width := 0, height := 0, buffer := [], points := [] \<rparr>)) \<and>
   (- (2 ^ 31) - 1 < (- 3 :: real) \<and> (- 3 :: real) \<le> - 1 \<and> rebuildBuffers (- 3) initial = Inl RangeError)"
  using rebuildBuffers_nonpositive [of 0 initial] rebuildBuffers_nonpositive [of "- 3" initial]
  by simp

text \<open>Claim C7 as stated fails at size \<open>- 1\<close>: the allocation raises.\<close>

theorem rebuildBuffers_negative_counterexample:
  "rebuildBuffers (- 1) initial = Inl RangeError"
  using toInt32_negative(2) [of "- 1"] by (simp add: rebuildBuffers_def Let_def)

section \<open>Resolution of the endpoints\<close>

lemma matchesAt_Cons_0:
  "matchesAt (p # ps) v 0 = (case p of None \<Rightarrow> False | Some q \<Rightarrow> vx q = vx v \<and> vz q = vz v)"
  by (simp add: matchesAt_def)

lemma matchesAt_Cons_Suc: "matchesAt (p # ps) v (Suc k) = matchesAt ps v k"
  by (simp add: matchesAt_def)

lemma scanPoints_least:
  "scanPoints ps v i =
     (if \<exists>k. matchesAt ps v k then Some (i + (LEAST k. matchesAt ps v k)) else None)"
proof (induction ps arbitrary: i)
  case Nil
  then show ?case by (simp add: matchesAt_def)
next
  case (Cons p ps)
  show ?case
  proof (cases "matchesAt (p # ps) v 0")
    case True
    then have "(LEAST k. matchesAt (p # ps) v k) = 0"
      by (intro Least_equality) simp_all
    moreover have "scanPoints (p # ps) v i = Some i"
      using True by (simp add: matchesAt_Cons_0 split: option.splits)
    ultimately show ?thesis using True by auto
  next
    case False
    then have step: "scanPoints (p # ps) v i = scanPoints ps v (Suc i)"
      by (auto simp add: matchesAt_Cons_0 split: option.splits)
    have ex: "(\<exists>k. matchesAt (p # ps) v k) = (\<exists>k. matchesAt ps v k)"
    proof
      assume "\<exists>k. matchesAt (p # ps) v k"
      then obtain k where k: "matchesAt (p # ps) v k" by blast
      with False obtain k' where "k = Suc k'" by (cases k) auto
      with k show "\<exists>k. matchesAt ps v k" using matchesAt_Cons_Suc by blast
    next
      assume "\<exists>k. matchesAt ps v k"
      then show "\<exists>k. matchesAt (p # ps) v k" using matchesAt_Cons_Suc by blast
    qed
    show ?thesis
    proof (cases "\<exists>k. matchesAt ps v k")
      case no: False
      then show ?thesis using step ex Cons.IH [of "Suc i"] by simp
    next
      case yes: True
      then obtain k where "matchesAt (p # ps) v (Suc k)" using matchesAt_Cons_Suc by blast
      then have "(LEAST k. matchesAt (p # ps) v k) = Suc (LEAST k. matchesAt (p # ps) v (Suc k))"
        using False by (rule Least_Suc)
      then have "(LEAST k. matchesAt (p # ps) v k) = Suc (LEAST k. matchesAt ps v k)"
        by (simp add: matchesAt_Cons_Suc)
      then show ?thesis using step ex yes Cons.IH [of "Suc i"] by simp
    qed
  qed
qed

lemma resolveIndex_refines: "resolveIndex pts v = resolveIndex_spec pts v"
  by (simp add: resolveIndex_def resolveIndex_spec_def scanPoints_least)

lemma resolveIndex_spec_bound:
  "resolveIndex_spec pts v < length pts \<or> resolveIndex_spec pts v = 0"
proof (cases "\<exists>k. matchesAt pts v k")
  case True
  then have "matchesAt pts v (LEAST k. matchesAt pts v k)" by (elim exE) (rule LeastI)
  then have "(LEAST k. matchesAt pts v k) < length pts" unfolding matchesAt_def by (rule conjunct1)
  then show ?thesis using True by (simp add: resolveIndex_spec_def)
next
  case False
  then show ?thesis by (simp add: resolveIndex_spec_def)
qed

lemma divShr0_div:
  assumes "0 < w" "int i < w * 2 ^ 31"
  shows "divShr0 i w = int i div w"
proof -
  have f: "\<lfloor>real i / real_of_int w\<rfloor> = int i div w"
    using floor_divide_of_int_eq [of "int i" w, where ?'a = real] by simp
  have "real_of_int (int i) < real_of_int (w * 2 ^ 31)"
    using assms(2) by (simp only: of_int_less_iff)
  then have "real i < 2 ^ 31 * real_of_int w" by (simp add: mult.commute)
  then have lt: "real i / real_of_int w < 2 ^ 31"
    using assms(1) by (simp add: pos_divide_less_eq)
  have nn: "0 \<le> real i / real_of_int w" using assms(1) by simp
  show ?thesis using assms(1) toInt32_small [OF nn lt] f by (simp add: divShr0_def)
qed

lemma modShr0_mod:
  assumes "0 < h" "h \<le> 2 ^ 31"
  shows "modShr0 i h = int i mod h"
proof -
  have a: "0 \<le> int i mod h" "int i mod h < h" using assms(1) by simp_all
  have nn: "0 \<le> real_of_int (int i mod h)" using a(1) by simp
  have "int i mod h < 2 ^ 31" using a(2) assms(2) by linarith
  then have "real_of_int (int i mod h) < real_of_int (2 ^ 31)"
    by (simp only: of_int_less_iff)
  then have lt: "real_of_int (int i mod h) < 2 ^ 31" by simp
  show ?thesis using assms(1) toInt32_small [OF nn lt] by (simp add: modShr0_def)
qed

text \<open>
  Claim C2: on a grid with positive width and height, within the 32-bit range of
  \<open>>> 0\<close> and with at most \<open>width * 2 ^ 31\<close> points (as after any \<open>fill\<close> of a grid
  that is not empty), each endpoint is resolved to the lowest index of a sampled point with
  exactly its \<open>x\<close> and \<open>z\<close>, or to 0 when there is none, and the grid coordinates are
  \<open>index div width\<close> and \<open>index mod height\<close> for the start, \<open>index div width\<close> and
  \<open>index mod width\<close> for the end.
\<close>

theorem gridCoords_resolution:
  assumes "0 < width pf" "width pf \<le> 2 ^ 31" "0 < height pf" "height pf \<le> 2 ^ 31"
    and "int (length (points pf)) \<le> width pf * 2 ^ 31"
  shows "gridCoords pf fromP toP =
     ((int (resolveIndex_spec (points pf) fromP) div width pf,
       int (resolveIndex_spec (points pf) fromP) mod height pf),
      (int (resolveIndex_spec (points pf) toP) div width pf,
       int (resolveIndex_spec (points pf) toP) mod width pf))"
proof -
  have "0 < width pf * 2 ^ 31" using assms(1) by simp
  then have small: "int (resolveIndex_spec (points pf) v) < width pf * 2 ^ 31" for v
    using resolveIndex_spec_bound [of "points pf" v] assms(5) by auto
  show ?thesis
    unfolding gridCoords_def Let_def resolveIndex_refines
    by (simp add: divShr0_div [OF assms(1) small] modShr0_mod [OF assms(3,4)]
          modShr0_mod [OF assms(1,2)])
qed

text \<open>
  The same on the example: the start has the \<open>x\<close> and \<open>z\<close> of the entries 1 and 2 and
  resolves to 1, the end matches no entry and resolves to 0.
\<close>

theorem gridCoords_resolution_witness:
  "0 < width sampledFinder \<and> width sampledFinder \<le> 2 ^ 31 \<and>
   0 < height sampledFinder \<and> height sampledFinder \<le> 2 ^ 31 \<and>
   int (length (points sampledFinder)) \<le> width sampledFinder * 2 ^ 31 \<and>
   gridCoords sampledFinder (Vector3 1 9 1) (Vector3 7 0 7) =
     ((int (resolveIndex_spec (points sampledFinder) (Vector3 1 9 1)) div width sampledFinder,
       int (resolveIndex_spec (points sampledFinder) (Vector3 1 9 1)) mod height sampledFinder),
      (int (resolveIndex_spec (points sampledFinder) (Vector3 7 0 7)) div width sampledFinder,
       int (resolveIndex_spec (points sampledFinder) (Vector3 7 0 7)) mod width sampledFinder)) \<and>
   gridCoords sampledFinder (Vector3 1 9 1) (Vector3 7 0 7) = ((0, 1), (0, 0))"
proof -
  have h: "0 < width sampledFinder" "width sampledFinder \<le> 2 ^ 31"
    "0 < height sampledFinder" "height sampledFinder \<le> 2 ^ 31"
    "int (length (points sampledFinder)) \<le> width sampledFinder * 2 ^ 31"
    by (simp_all add: sampledFinder_def)
  have r: "resolveIndex (points sampledFinder) (Vector3 1 9 1) = 1"
    "resolveIndex (points sampledFinder) (Vector3 7 0 7) = 0"
    by (simp_all add: sampledFinder_def resolveIndex_def)
  have v: "((int (resolveIndex_spec (points sampledFinder) (Vector3 1 9 1)) div width sampledFinder,
       int (resolveIndex_spec (points sampledFinder) (Vector3 1 9 1)) mod height sampledFinder),
      (int (resolveIndex_spec (points sampledFinder) (Vector3 7 0 7)) div width sampledFinder,
       int (resolveIndex_spec (points sampledFinder) (Vector3 7 0 7)) mod width sampledFinder))
      = ((0, 1), (0, 0))"
    unfolding r [unfolded resolveIndex_refines] by (simp add: sampledFinder_def)
  note g = gridCoords_resolution [OF h, of "Vector3 1 9 1" "Vector3 7 0 7"]
  show ?thesis using h g v by simp
qed

section \<open>The loops of fill\<close>

lemma fold_prod:
  "fold (\<lambda>x st. (f x (fst st), g x (snd st))) xs st = (fold f xs (fst st), fold g xs (snd st))"
  by (induction xs arbitrary: st) simp_all

lemma fold_push: "fold (\<lambda>j a. a @ [P j]) ys a = a @ map P ys"
  by (induction ys arbitrary: a) simp_all

lemma fold_push_rows:
  "fold (\<lambda>i. fold (\<lambda>j a. a @ [P i j]) ys) xs a = a @ concat (map (\<lambda>i. map (P i) ys) xs)"
  by (induction xs arbitrary: a) (simp_all add: fold_push)

lemma fold_update_row:
  assumes "i < length b" "n \<le> length (b ! i)"
  shows "fold (\<lambda>j c. c[i := (c ! i)[j := f j (c ! i ! j)]]) [0..<n] b
         = b[i := map (\<lambda>j. f j (b ! i ! j)) [0..<n] @ drop n (b ! i)]"
  using assms(2)
proof (induction n)
  case 0
  then show ?case by simp
next
  case (Suc n)
  let ?done = "map (\<lambda>j. f j (b ! i ! j)) [0..<n]"
  have n: "n < length (b ! i)" using Suc.prems by simp
  have d: "drop n (b ! i) = b ! i ! n # drop (Suc n) (b ! i)"
    using n by (simp add: Cons_nth_drop_Suc)
  have at: "(?done @ drop n (b ! i)) ! n = b ! i ! n"
    by (simp add: nth_append d)
  have up: "(?done @ drop n (b ! i))[n := v] = ?done @ v # drop (Suc n) (b ! i)" for v
    by (simp add: list_update_append d)
  have "fold (\<lambda>j c. c[i := (c ! i)[j := f j (c ! i ! j)]]) [0..<Suc n] b
        = (b[i := ?done @ drop n (b ! i)])
            [i := ((b[i := ?done @ drop n (b ! i)]) ! i)
               [n := f n ((b[i := ?done @ drop n (b ! i)]) ! i ! n)]]"
    using Suc.IH n by simp
  also have "\<dots> = b[i := ?done @ f n (b ! i ! n) # drop (Suc n) (b ! i)]"
    using assms(1) by (simp add: at up)
  finally show ?case by simp
qed

lemma fold_update_rows:
  assumes "m \<le> length b" "\<forall>i<length b. length (b ! i) = h"
  shows "fold (\<lambda>i. fold (\<lambda>j c. c[i := (c ! i)[j := f i j (c ! i ! j)]]) [0..<h]) [0..<m] b
         = map (\<lambda>i. map (\<lambda>j. f i j (b ! i ! j)) [0..<h]) [0..<m] @ drop m b"
  using assms(1)
proof (induction m)
  case 0
  then show ?case by simp
next
  case (Suc m)
  let ?done = "map (\<lambda>i. map (\<lambda>j. f i j (b ! i ! j)) [0..<h]) [0..<m]"
  let ?mid = "?done @ drop m b"
  have m: "m < length b" using Suc.prems by simp
  have d: "drop m b = b ! m # drop (Suc m) b"
    using m by (simp add: Cons_nth_drop_Suc)
  have at: "?mid ! m = b ! m"
    by (simp add: nth_append d)
  have len: "length (b ! m) = h" using assms(2) m by simp
  have row: "fold (\<lambda>j c. c[m := (c ! m)[j := f m j (c ! m ! j)]]) [0..<h] ?mid
             = ?mid[m := map (\<lambda>j. f m j (?mid ! m ! j)) [0..<h] @ drop h (?mid ! m)]"
  proof (rule fold_update_row)
    show "m < length ?mid" using m by simp
    show "h \<le> length (?mid ! m)" unfolding at len by simp
  qed
  have "fold (\<lambda>i. fold (\<lambda>j c. c[i := (c ! i)[j := f i j (c ! i ! j)]]) [0..<h]) [0..<Suc m] b
        = fold (\<lambda>j c. c[m := (c ! m)[j := f m j (c ! m ! j)]]) [0..<h] ?mid"
    using Suc.IH m by simp
  also have "\<dots> = ?mid[m := map (\<lambda>j. f m j (b ! m ! j)) [0..<h]]"
    unfolding row at by (simp add: len)
  also have "\<dots> = ?done @ map (\<lambda>j. f m j (b ! m ! j)) [0..<h] # drop (Suc m) b"
    by (simp add: list_update_append d)
  finally show ?case by simp
qed

lemma cellStep_pair:
  "cellStep found i j st =
     (fst st @ [Option.bind found pickedPoint],
      (snd st)[i := (snd st ! i)[j := Some (case found of None \<Rightarrow> 0 | Some h \<Rightarrow> 1)]])"
  by (simp add: cellStep_def split: prod.split option.split)

lemma castCells_result:
  assumes "length buf = w" "\<forall>i<length buf. length (buf ! i) = h"
  shows "castCells I ms ray w h (pts, buf) =
     (pts @ concat (map (\<lambda>i. map (\<lambda>j. Option.bind (find hit (I (ray i j) ms)) pickedPoint)
                                [0..<h]) [0..<w]),
      map (\<lambda>i. map (\<lambda>j. Some (case find hit (I (ray i j) ms) of None \<Rightarrow> 0 | Some h \<Rightarrow> 1))
                 [0..<h]) [0..<w])"
proof -
  let ?P = "\<lambda>i j. Option.bind (find hit (I (ray i j) ms)) pickedPoint"
  let ?M = "\<lambda>i j (c :: nat option). Some (case find hit (I (ray i j) ms) of None \<Rightarrow> 0 | Some h \<Rightarrow> (1 :: nat))"
  have inner: "fold (\<lambda>j. cellStep (find hit (I (ray i j) ms)) i j) [0..<h]
      = (\<lambda>st. (fold (\<lambda>j a. a @ [?P i j]) [0..<h] (fst st),
                fold (\<lambda>j c. c[i := (c ! i)[j := ?M i j (c ! i ! j)]]) [0..<h] (snd st)))" for i
  proof (rule ext)
    fix st
    have "(\<lambda>j. cellStep (find hit (I (ray i j) ms)) i j)
          = (\<lambda>j st. ((\<lambda>j a. a @ [?P i j]) j (fst st),
                     (\<lambda>j c. c[i := (c ! i)[j := ?M i j (c ! i ! j)]]) j (snd st)))"
      by (intro ext) (simp add: cellStep_pair)
    then show "fold (\<lambda>j. cellStep (find hit (I (ray i j) ms)) i j) [0..<h] st
      = (fold (\<lambda>j a. a @ [?P i j]) [0..<h] (fst st),
         fold (\<lambda>j c. c[i := (c ! i)[j := ?M i j (c ! i ! j)]]) [0..<h] (snd st))"
      using fold_prod [of "\<lambda>j a. a @ [?P i j]"
          "\<lambda>j c. c[i := (c ! i)[j := ?M i j (c ! i ! j)]]" "[0..<h]" st]
      by simp
  qed
  have "castCells I ms ray w h (pts, buf) =
     (fold (\<lambda>i. fold (\<lambda>j a. a @ [?P i j]) [0..<h]) [0..<w] pts,
      fold (\<lambda>i. fold (\<lambda>j c. c[i := (c ! i)[j := ?M i j (c ! i ! j)]]) [0..<h]) [0..<w] buf)"
    unfolding castCells_def inner
    using fold_prod [of "\<lambda>i. fold (\<lambda>j a. a @ [?P i j]) [0..<h]"
        "\<lambda>i. fold (\<lambda>j c. c[i := (c ! i)[j := ?M i j (c ! i ! j)]]) [0..<h]" "[0..<w]"
        "(pts, buf)"]
    by simp
  also have "fold (\<lambda>i. fold (\<lambda>j c. c[i := (c ! i)[j := ?M i j (c ! i ! j)]]) [0..<h]) [0..<w] buf
      = map (\<lambda>i. map (\<lambda>j. ?M i j (buf ! i ! j)) [0..<h]) [0..<w] @ drop w buf"
    using assms by (intro fold_update_rows) simp_all
  finally show ?thesis using assms(1) by (simp add: fold_push_rows)
qed

lemma enumerate_map_upt:
  "map (\<lambda>(i, x). g i x) (enumerate 0 (map f [0..<n])) = map (\<lambda>i. g i (f i)) [0..<n]"
  by (rule nth_equalityI) (simp_all add: nth_enumerate_eq)

lemma newGraph_grid:
  "grid (newGraph (map (\<lambda>i. map (c i) [0..<h]) [0..<w]) d) =
     map (\<lambda>i. map (\<lambda>j. \<lparr> node_x = i, node_y = j, weight = c i j, point = None \<rparr>) [0..<h])
       [0..<w]"
proof -
  have row: "map (\<lambda>(j, v). \<lparr> node_x = i, node_y = j, weight = v, point = None \<rparr>)
                 (enumerate 0 (map (c i) [0..<h]))
             = map (\<lambda>j. \<lparr> node_x = i, node_y = j, weight = c i j, point = None \<rparr>) [0..<h]" for i
    by (rule enumerate_map_upt)
  have "grid (newGraph (map (\<lambda>i. map (c i) [0..<h]) [0..<w]) d)
        = map (\<lambda>(i, r). map (\<lambda>(j, v). \<lparr> node_x = i, node_y = j, weight = v, point = None \<rparr>)
                 (enumerate 0 r)) (enumerate 0 (map (\<lambda>i. map (c i) [0..<h]) [0..<w]))"
    by (simp add: newGraph_def)
  also have "\<dots> = map (\<lambda>i. map (\<lambda>(j, v). \<lparr> node_x = i, node_y = j, weight = v, point = None \<rparr>)
                 (enumerate 0 (map (c i) [0..<h]))) [0..<w]"
    by (rule enumerate_map_upt)
  finally show ?thesis unfolding row .
qed

lemma setPoints_grid:
  assumes "gr = map (\<lambda>i. map (n i) [0..<h]) [0..<w]"
  shows "grid (setPoints pts w h \<lparr> grid = gr, diagonal = d \<rparr>) =
     map (\<lambda>i. map (\<lambda>j. (n i j)\<lparr> point := readPoint pts (j * w + i) \<rparr>) [0..<h]) [0..<w]"
proof -
  let ?f = "\<lambda>i j (x :: GridNode). x\<lparr> point := readPoint pts (j * w + i) \<rparr>"
  have step: "(\<lambda>j. setNodePoint i j (readPoint pts (j * w + i)))
              = (\<lambda>j c. c[i := (c ! i)[j := ?f i j (c ! i ! j)]])" for i
    by (intro ext) (simp add: setNodePoint_def)
  have "grid (setPoints pts w h \<lparr> grid = gr, diagonal = d \<rparr>)
        = fold (\<lambda>i. fold (\<lambda>j c. c[i := (c ! i)[j := ?f i j (c ! i ! j)]]) [0..<h]) [0..<w] gr"
    by (simp add: setPoints_def step)
  also have "\<dots> = map (\<lambda>i. map (\<lambda>j. ?f i j (gr ! i ! j)) [0..<h]) [0..<w] @ drop w gr"
    by (rule fold_update_rows) (simp_all add: assms)
  also have "\<dots> = map (\<lambda>i. map (\<lambda>j. ?f i j (n i j)) [0..<h]) [0..<w]"
    by (simp add: assms)
  finally show ?thesis .
qed

lemma toInt32_of_int:
  assumes "0 \<le> k" "k < 2 ^ 31"
  shows "toInt32 (real_of_int k) = k"
proof -
  have "real_of_int k < real_of_int (2 ^ 31)" using assms(2) by (simp only: of_int_less_iff)
  then have "real_of_int k < 2 ^ 31" by simp
  moreover have "0 \<le> real_of_int k" using assms(1) by simp
  ultimately show ?thesis using toInt32_small [of "real_of_int k"] by simp
qed

text \<open>
  What \<open>fill\<close> leaves behind, field by field, on a path finder whose width is a
  non-negative 32-bit integer.
\<close>

lemma fill_result:
  assumes "0 \<le> width pf" "width pf < 2 ^ 31"
  shows "\<exists>pf'. fill I ms rh rl pf = Inr pf' \<and>
     width pf' = width pf \<and> height pf' = width pf \<and>
     boundingInfo pf' = Some (combinedBounds ms) \<and>
     points pf' =
       concat (map (\<lambda>i. map (\<lambda>j. Option.bind
           (find hit (I (cellRay (combinedBounds ms) (width pf) (width pf) rh rl i j) ms))
           pickedPoint) [0..<nat (width pf)]) [0..<nat (width pf)]) \<and>
     buffer pf' =
       map (\<lambda>i. map (\<lambda>j. Some (case
           find hit (I (cellRay (combinedBounds ms) (width pf) (width pf) rh rl i j) ms)
           of None \<Rightarrow> 0 | Some h \<Rightarrow> 1)) [0..<nat (width pf)]) [0..<nat (width pf)] \<and>
     graph pf' = Some \<lparr> grid =
       map (\<lambda>i. map (\<lambda>j. \<lparr> node_x = i, node_y = j, weight = buffer pf' ! i ! j,
                          point = readPoint (points pf') (j * nat (width pf) + i) \<rparr>)
                 [0..<nat (width pf)]) [0..<nat (width pf)],
       diagonal = False \<rparr>"
proof -
  let ?W = "width pf"
  let ?w = "nat ?W"
  let ?F = "\<lambda>i j. find hit (I (cellRay (combinedBounds ms) ?W ?W rh rl i j) ms)"
  let ?P = "concat (map (\<lambda>i. map (\<lambda>j. Option.bind (?F i j) pickedPoint) [0..<?w]) [0..<?w])"
  let ?c = "\<lambda>i j. Some (case ?F i j of None \<Rightarrow> 0 | Some h \<Rightarrow> (1 :: nat))"
  let ?B = "map (\<lambda>i. map (?c i) [0..<?w]) [0..<?w]"
  let ?pf1 = "pf\<lparr> width := ?W, height := ?W,
                   buffer := map (\<lambda>i. replicate ?w None) [0..<?w], points := [] \<rparr>"
  have rb: "rebuildBuffers (real_of_int ?W) pf = Inr ?pf1"
    using assms by (simp add: rebuildBuffers_def toInt32_of_int Let_def)
  have cc: "castCells I ms (cellRay (combinedBounds ms) ?W ?W rh rl) ?w ?w
              ([], map (\<lambda>i. replicate ?w None) [0..<?w]) = ([] @ ?P, ?B)"
    by (rule castCells_result) simp_all
  have g0: "newGraph ?B False =
      \<lparr> grid = map (\<lambda>i. map (\<lambda>j. \<lparr> node_x = i, node_y = j, weight = ?c i j, point = None \<rparr>)
                  [0..<?w]) [0..<?w], diagonal = False \<rparr>"
    using newGraph_grid [of ?c ?w ?w False] by (simp add: newGraph_def)
  have g1: "setPoints ?P ?w ?w (newGraph ?B False) =
      \<lparr> grid = map (\<lambda>i. map (\<lambda>j. \<lparr> node_x = i, node_y = j, weight = ?c i j,
                  point = readPoint ?P (j * ?w + i) \<rparr>) [0..<?w]) [0..<?w], diagonal = False \<rparr>"
    unfolding g0
    using setPoints_grid [OF refl, of ?P ?w ?w
        "\<lambda>i j. \<lparr> node_x = i, node_y = j, weight = ?c i j, point = None \<rparr>" False]
    by (simp add: setPoints_def)
  have wt: "map (\<lambda>i. map (\<lambda>j. \<lparr> node_x = i, node_y = j, weight = ?c i j,
                  point = readPoint ?P (j * ?w + i) \<rparr>) [0..<?w]) [0..<?w]
          = map (\<lambda>i. map (\<lambda>j. \<lparr> node_x = i, node_y = j, weight = ?B ! i ! j,
                  point = readPoint ?P (j * ?w + i) \<rparr>) [0..<?w]) [0..<?w]"
    by (intro map_cong refl) simp
  have "fill I ms rh rl pf =
      Inr (?pf1\<lparr> graph := Some (setPoints ?P ?w ?w (newGraph ?B False)), buffer := ?B,
                  points := ?P, boundingInfo := Some (combinedBounds ms) \<rparr>)"
    unfolding fill_def rb using cc by (simp add: Let_def)
  then show ?thesis unfolding g1 wt by simp
qed

section \<open>Cells, points and the mask after fill\<close>

lemma length_concat_rows:
  "length (concat (map (\<lambda>i. map (f i) [0..<h]) [0..<w])) = w * h"
  by (induction w) simp_all

lemma nth_concat_rows:
  assumes "i < w" "j < h"
  shows "concat (map (\<lambda>i. map (f i) [0..<h]) [0..<w]) ! (i * h + j) = f i j"
  using assms(1)
proof (induction w)
  case 0
  then show ?case by simp
next
  case (Suc w)
  show ?case
  proof (cases "i < w")
    case True
    then have "Suc i \<le> w" by simp
    then have "Suc i * h \<le> w * h" by (rule mult_le_mono1)
    then have "i * h + j < w * h" using assms(2) by simp
    then show ?thesis using Suc.IH [OF True]
      by (simp add: nth_append length_concat_rows)
  next
    case False
    then have "i = w" using Suc.prems by simp
    then show ?thesis using assms(2)
      by (simp add: nth_append length_concat_rows)
  qed
qed

lemma newPathFinder_2: "newPathFinder 2 = Inr freshFinder"
  by (simp add: newPathFinder_def rebuildBuffers_def toInt32_def initial_def freshFinder_def
      Let_def numeral_2_eq_2)

text \<open>
  The rasterising loop: \<open>fill\<close> returns on every path finder whose width is a
  non-negative 32-bit integer; the point array has \<open>width * height\<close> entries, and for
  every cell \<open>(x, y)\<close> of the grid, if the ray cast at that cell hit a surface then the
  picked point of the hit is the entry \<open>x * height + y\<close> of the point array and the mask
  holds 1 at \<open>[x][y]\<close>; if it hit none, that entry is absent and the mask holds 0.
\<close>

theorem fill_records_hits:
  assumes "0 \<le> width pf" "width pf < 2 ^ 31"
  shows "\<exists>pf'. fill I ms rh rl pf = Inr pf' \<and>
     width pf' = width pf \<and> height pf' = width pf \<and>
     length (points pf') = nat (width pf') * nat (height pf') \<and>
     (\<forall>x < nat (width pf'). \<forall>y < nat (height pf').
        (case find hit (I (cellRay (combinedBounds ms) (width pf') (height pf') rh rl x y) ms) of
           Some h \<Rightarrow> points pf' ! (x * nat (height pf') + y) = pickedPoint h \<and>
                     buffer pf' ! x ! y = Some 1 \<and> cellWalkable pf' x y
         | None \<Rightarrow> points pf' ! (x * nat (height pf') + y) = None \<and>
                   buffer pf' ! x ! y = Some 0 \<and> \<not> cellWalkable pf' x y))"
proof -
  from fill_result [OF assms, of I ms rh rl] obtain pf' where
    r: "fill I ms rh rl pf = Inr pf'" "width pf' = width pf" "height pf' = width pf"
    and p: "points pf' =
       concat (map (\<lambda>i. map (\<lambda>j. Option.bind
           (find hit (I (cellRay (combinedBounds ms) (width pf) (width pf) rh rl i j) ms))
           pickedPoint) [0..<nat (width pf)]) [0..<nat (width pf)])"
    and b: "buffer pf' =
       map (\<lambda>i. map (\<lambda>j. Some (case
           find hit (I (cellRay (combinedBounds ms) (width pf) (width pf) rh rl i j) ms)
           of None \<Rightarrow> 0 | Some h \<Rightarrow> 1)) [0..<nat (width pf)]) [0..<nat (width pf)]"
    by blast
  have len: "length (points pf') = nat (width pf') * nat (height pf')"
    unfolding p r(2,3) by (rule length_concat_rows)
  have cell: "case find hit (I (cellRay (combinedBounds ms) (width pf') (height pf') rh rl x y) ms) of
           Some h \<Rightarrow> points pf' ! (x * nat (height pf') + y) = pickedPoint h \<and>
                     buffer pf' ! x ! y = Some 1 \<and> cellWalkable pf' x y
         | None \<Rightarrow> points pf' ! (x * nat (height pf') + y) = None \<and>
                   buffer pf' ! x ! y = Some 0 \<and> \<not> cellWalkable pf' x y"
    if "x < nat (width pf')" "y < nat (height pf')" for x y
  proof -
    have xy: "x < nat (width pf)" "y < nat (width pf)" using that r(2,3) by simp_all
    have pt: "points pf' ! (x * nat (width pf) + y) = Option.bind
           (find hit (I (cellRay (combinedBounds ms) (width pf) (width pf) rh rl x y) ms))
           pickedPoint"
      unfolding p by (rule nth_concat_rows [OF xy])
    have bf: "buffer pf' ! x ! y = Some (case
           find hit (I (cellRay (combinedBounds ms) (width pf) (width pf) rh rl x y) ms)
           of None \<Rightarrow> 0 | Some h \<Rightarrow> 1)"
      unfolding b using xy by simp
    show ?thesis unfolding r(2,3) cellWalkable_def pt bf
      by (simp split: option.split)
  qed
  show ?thesis using r len cell by blast
qed

text \<open>The example: a grid of 2 by 2 cells over the centred mesh.\<close>

lemma centred_bounds:
  "combinedBounds [centredMesh] =
     \<lparr> minimum = Vector3 (- 1) 0 (- 1), maximum = Vector3 1 0 1,
       centerWorld = Some (Vector3 0 0 0) \<rparr>"
  by (simp add: combinedBounds_def accumulate_def centredMesh_def Zero_def v3_add_def)

lemma centred_ray:
  "cellRay (combinedBounds [centredMesh]) 2 2 None None i j =
     \<lparr> origin = Some (Vector3 (real i - 1) 10 (real j - 1)),
       direction = Vector3 0 (- 1) 0, rayLength = 100 \<rparr>"
  by (simp add: centred_bounds cellRay_def startCorner_def extentX_def extentY_def
      orDefault_def v3_add_def v3_subtract_def)

lemma centred_cast:
  "find hit (quadrantSurface (cellRay (combinedBounds [centredMesh]) 2 2 None None i j)
       [centredMesh]) =
     (if real i \<le> 1 \<and> 1 \<le> real j
      then Some \<lparr> hit = True, pickedPoint = Some (Vector3 (real i - 1) 0 (real j - 1)) \<rparr>
      else None)"
  by (simp add: centred_ray quadrantSurface_def)

lemma fill_centred:
  "\<exists>pf'. fill quadrantSurface [centredMesh] None None freshFinder = Inr pf' \<and>
     width pf' = 2 \<and> height pf' = 2 \<and>
     points pf' = [None, Some (Vector3 (- 1) 0 0), None, Some (Vector3 0 0 0)] \<and>
     buffer pf' = [[Some 0, Some 1], [Some 0, Some 1]] \<and>
     graph pf' = Some \<lparr> grid =
       [[\<lparr> node_x = 0, node_y = 0, weight = Some 0, point = None \<rparr>,
         \<lparr> node_x = 0, node_y = 1, weight = Some 1, point = None \<rparr>],
        [\<lparr> node_x = 1, node_y = 0, weight = Some 0, point = Some (Vector3 (- 1) 0 0) \<rparr>,
         \<lparr> node_x = 1, node_y = 1, weight = Some 1, point = Some (Vector3 0 0 0) \<rparr>]],
       diagonal = False \<rparr>"
proof -
  have w: "0 \<le> width freshFinder" "width freshFinder < 2 ^ 31" "width freshFinder = 2"
    by (simp_all add: freshFinder_def)
  from fill_result [OF w(1,2), of quadrantSurface "[centredMesh]" None None]
  obtain pf' where r: "fill quadrantSurface [centredMesh] None None freshFinder = Inr pf'"
    "width pf' = 2" "height pf' = 2"
    and p: "points pf' =
       concat (map (\<lambda>i. map (\<lambda>j. Option.bind
           (find hit (quadrantSurface (cellRay (combinedBounds [centredMesh]) 2 2 None None i j)
              [centredMesh])) pickedPoint) [0..<nat 2]) [0..<nat 2])"
    and b: "buffer pf' =
       map (\<lambda>i. map (\<lambda>j. Some (case
           find hit (quadrantSurface (cellRay (combinedBounds [centredMesh]) 2 2 None None i j)
              [centredMesh])
           of None \<Rightarrow> 0 | Some h \<Rightarrow> 1)) [0..<nat 2]) [0..<nat 2]"
    and g: "graph pf' = Some \<lparr> grid =
       map (\<lambda>i. map (\<lambda>j. \<lparr> node_x = i, node_y = j, weight = buffer pf' ! i ! j,
                          point = readPoint (points pf') (j * nat 2 + i) \<rparr>)
                 [0..<nat 2]) [0..<nat 2],
       diagonal = False \<rparr>"
    unfolding w(3) by blast
  have n: "[0..<nat 2] = [0, 1]" by (simp add: numeral_2_eq_2)
  have p': "points pf' = [None, Some (Vector3 (- 1) 0 0), None, Some (Vector3 0 0 0)]"
    unfolding p n by (simp add: centred_cast)
  have b': "buffer pf' = [[Some 0, Some 1], [Some 0, Some 1]]"
    unfolding b n by (simp add: centred_cast)
  have g': "graph pf' = Some \<lparr> grid =
       [[\<lparr> node_x = 0, node_y = 0, weight = Some 0, point = None \<rparr>,
         \<lparr> node_x = 0, node_y = 1, weight = Some 1, point = None \<rparr>],
        [\<lparr> node_x = 1, node_y = 0, weight = Some 0, point = Some (Vector3 (- 1) 0 0) \<rparr>,
         \<lparr> node_x = 1, node_y = 1, weight = Some 1, point = Some (Vector3 0 0 0) \<rparr>]],
       diagonal = False \<rparr>"
    unfolding g n p' b' by (simp add: readPoint_def)
  show ?thesis using r p' b' g' by blast
qed

text \<open>The same on the example.\<close>

theorem fill_records_hits_witness:
  "0 \<le> width freshFinder \<and> width freshFinder < 2 ^ 31 \<and>
   (\<exists>pf'. fill quadrantSurface [centredMesh] None None freshFinder = Inr pf' \<and>
     width pf' = width freshFinder \<and> height pf' = width freshFinder \<and>
     length (points pf') = nat (width pf') * nat (height pf') \<and>
     (\<forall>x < nat (width pf'). \<forall>y < nat (height pf').
        (case find hit (quadrantSurface
                 (cellRay (combinedBounds [centredMesh]) (width pf') (height pf') None None x y)
                 [centredMesh]) of
           Some h \<Rightarrow> points pf' ! (x * nat (height pf') + y) = pickedPoint h \<and>
                     buffer pf' ! x ! y = Some 1 \<and> cellWalkable pf' x y
         | None \<Rightarrow> points pf' ! (x * nat (height pf') + y) = None \<and>
                   buffer pf' ! x ! y = Some 0 \<and> \<not> cellWalkable pf' x y)))"
proof -
  have w: "0 \<le> width freshFinder" "width freshFinder < 2 ^ 31"
    by (simp_all add: freshFinder_def)
  show ?thesis
    by (intro conjI w fill_records_hits [OF w])
qed

text \<open>
  Claim C1 says that the picked point of a cell \<open>(x, y)\<close> whose ray hit is the entry
  \<open>y * width + x\<close> of the point array, which is also the entry that the last loop of
  \<open>fill\<close> gives to the node \<open>(x, y)\<close>. The rasterising loop does not do so: on the
  example the ray of the cell \<open>(0, 1)\<close> hits and the mask holds 1 there, but the entry
  \<open>y * width + x = 2\<close> is absent; the picked point is the entry \<open>x * height + y = 1\<close>.
\<close>

theorem fill_linear_index_example:
  "(case fill quadrantSurface [centredMesh] None None freshFinder of
      Inl e \<Rightarrow> False
    | Inr pf' \<Rightarrow>
        width pf' = 2 \<and> height pf' = 2 \<and>
        find hit (quadrantSurface
            (cellRay (combinedBounds [centredMesh]) (width pf') (height pf') None None 0 1)
            [centredMesh]) = Some \<lparr> hit = True, pickedPoint = Some (Vector3 (- 1) 0 0) \<rparr> \<and>
        buffer pf' ! 0 ! 1 = Some 1 \<and>
        points pf' ! (1 * 2 + 0) = None \<and>
        points pf' ! (0 * 2 + 1) = Some (Vector3 (- 1) 0 0))"
proof -
  from fill_centred obtain pf' where
    "fill quadrantSurface [centredMesh] None None freshFinder = Inr pf'"
    "width pf' = 2" "height pf' = 2"
    "points pf' = [None, Some (Vector3 (- 1) 0 0), None, Some (Vector3 0 0 0)]"
    "buffer pf' = [[Some 0, Some 1], [Some 0, Some 1]]"
    by blast
  then show ?thesis by (simp add: centred_cast)
qed

section \<open>Bounds and rays\<close>

lemma Min_insert_min:
  assumes "finite S"
  shows "Min (insert (min a b) S) = Min (insert a (insert b S))"
proof (cases "S = {}")
  case True
  then show ?thesis by simp
next
  case False
  then show ?thesis using assms by (simp add: min.assoc)
qed

lemma Max_insert_max:
  assumes "finite S"
  shows "Max (insert (max a b) S) = Max (insert a (insert b S))"
proof (cases "S = {}")
  case True
  then show ?thesis by simp
next
  case False
  then show ?thesis using assms by (simp add: max.assoc)
qed

lemma fold_accumulate:
  "fold accumulate ms (lo, hi, av) =
     (Vector3 (Min (insert (vx lo) ((\<lambda>m. vx (minimum (meshBoundingInfo m))) ` set ms)))
              (Min (insert (vy lo) ((\<lambda>m. vy (minimum (meshBoundingInfo m))) ` set ms)))
              (Min (insert (vz lo) ((\<lambda>m. vz (minimum (meshBoundingInfo m))) ` set ms))),
      Vector3 (Max (insert (vx hi) ((\<lambda>m. vx (maximum (meshBoundingInfo m))) ` set ms)))
              (Max (insert (vy hi) ((\<lambda>m. vy (maximum (meshBoundingInfo m))) ` set ms)))
              (Max (insert (vz hi) ((\<lambda>m. vz (maximum (meshBoundingInfo m))) ` set ms))),
      Vector3 (vx av + sum_list (map (\<lambda>m. vx (centerWorld (meshBoundingInfo m))) ms))
              (vy av + sum_list (map (\<lambda>m. vy (centerWorld (meshBoundingInfo m))) ms))
              (vz av + sum_list (map (\<lambda>m. vz (centerWorld (meshBoundingInfo m))) ms)))"
proof (induction ms arbitrary: lo hi av)
  case Nil
  then show ?case by simp
next
  case (Cons m ms)
  have step: "accumulate m (lo, hi, av) =
      (Vector3 (min (vx lo) (vx (minimum (meshBoundingInfo m))))
               (min (vy lo) (vy (minimum (meshBoundingInfo m))))
               (min (vz lo) (vz (minimum (meshBoundingInfo m)))),
       Vector3 (max (vx hi) (vx (maximum (meshBoundingInfo m))))
               (max (vy hi) (vy (maximum (meshBoundingInfo m))))
               (max (vz hi) (vz (maximum (meshBoundingInfo m)))),
       v3_add av (centerWorld (meshBoundingInfo m)))"
    by (simp add: accumulate_def Let_def)
  show ?case
    unfolding fold_Cons comp_def step Cons.IH
    by (simp add: Min_insert_min Max_insert_max v3_add_def add.assoc)
qed

lemma combinedBounds_closed:
  assumes "ms \<noteq> []"
  shows "combinedBounds ms =
     \<lparr> minimum =
         Vector3 (Min (insert 0 ((\<lambda>m. vx (minimum (meshBoundingInfo m))) ` set ms)))
                 (Min (insert 0 ((\<lambda>m. vy (minimum (meshBoundingInfo m))) ` set ms)))
                 (Min (insert 0 ((\<lambda>m. vz (minimum (meshBoundingInfo m))) ` set ms))),
       maximum =
         Vector3 (Max (insert 0 ((\<lambda>m. vx (maximum (meshBoundingInfo m))) ` set ms)))
                 (Max (insert 0 ((\<lambda>m. vy (maximum (meshBoundingInfo m))) ` set ms)))
                 (Max (insert 0 ((\<lambda>m. vz (maximum (meshBoundingInfo m))) ` set ms))),
       centerWorld = Some
         (Vector3 (sum_list (map (\<lambda>m. vx (centerWorld (meshBoundingInfo m))) ms) / real (length ms))
                  (sum_list (map (\<lambda>m. vy (centerWorld (meshBoundingInfo m))) ms) / real (length ms))
                  (sum_list (map (\<lambda>m. vz (centerWorld (meshBoundingInfo m))) ms) / real (length ms))) \<rparr>"
  using assms by (simp add: combinedBounds_def Zero_def fold_accumulate)

lemma cellRay_closed:
  assumes "centerWorld b = Some c"
  shows "cellRay b w h rh rl i j =
     \<lparr> origin = Some (Vector3
         (vx c - (\<bar>vx (maximum b)\<bar> + \<bar>vx (minimum b)\<bar>) / 2
            + real i * (\<bar>vx (maximum b)\<bar> + \<bar>vx (minimum b)\<bar>) / real_of_int w)
         (vy c + (case rh of None \<Rightarrow> vy (maximum b) + 10
                  | Some v \<Rightarrow> if v = 0 then vy (maximum b) + 10 else v))
         (vz c - (\<bar>vz (maximum b)\<bar> + \<bar>vz (minimum b)\<bar>) / 2
            + real j * (\<bar>vz (maximum b)\<bar> + \<bar>vz (minimum b)\<bar>) / real_of_int h)),
       direction = Vector3 0 (- 1) 0,
       rayLength = (case rl of None \<Rightarrow> 100 | Some v \<Rightarrow> if v = 0 then 100 else v) \<rparr>"
  using assms
  by (simp add: cellRay_def startCorner_def extentX_def extentY_def orDefault_def
      v3_add_def v3_subtract_def Let_def)

text \<open>
  Claim C4, as the code has it: for a surface set that is not empty, \<open>fill\<close> keeps as
  combined bounds the component-wise minimum of 0 and the surfaces' minimums and the
  maximum of 0 and their maximums (the box starts as the box of the origin), and as
  centre the mean of the surfaces' centres; with \<open>xd = |maxX| + |minX|\<close> and
  \<open>yd = |maxZ| + |minZ|\<close>, the entry of the point array for the cell \<open>(x, y)\<close> is the
  picked point of the first hit of the ray from
  \<open>centre - (xd / 2, 0, yd / 2) + (x * xd / width, rayHeight || maxY + 10, y * yd / height)\<close>
  in direction \<open>(0, - 1, 0)\<close> with length \<open>rayLength || 100\<close>, where \<open>||\<close> takes the
  default for an absent value and for the value 0.
\<close>

theorem fill_bounds_and_rays:
  assumes "ms \<noteq> []" "0 \<le> width pf" "width pf < 2 ^ 31"
  shows "\<exists>pf' b c. fill I ms rh rl pf = Inr pf' \<and>
     boundingInfo pf' = Some b \<and> centerWorld b = Some c \<and>
     minimum b =
       Vector3 (Min (insert 0 ((\<lambda>m. vx (minimum (meshBoundingInfo m))) ` set ms)))
               (Min (insert 0 ((\<lambda>m. vy (minimum (meshBoundingInfo m))) ` set ms)))
               (Min (insert 0 ((\<lambda>m. vz (minimum (meshBoundingInfo m))) ` set ms))) \<and>
     maximum b =
       Vector3 (Max (insert 0 ((\<lambda>m. vx (maximum (meshBoundingInfo m))) ` set ms)))
               (Max (insert 0 ((\<lambda>m. vy (maximum (meshBoundingInfo m))) ` set ms)))
               (Max (insert 0 ((\<lambda>m. vz (maximum (meshBoundingInfo m))) ` set ms))) \<and>
     c = Vector3
           (sum_list (map (\<lambda>m. vx (centerWorld (meshBoundingInfo m))) ms) / real (length ms))
           (sum_list (map (\<lambda>m. vy (centerWorld (meshBoundingInfo m))) ms) / real (length ms))
           (sum_list (map (\<lambda>m. vz (centerWorld (meshBoundingInfo m))) ms) / real (length ms)) \<and>
     (\<forall>x < nat (width pf'). \<forall>y < nat (height pf').
        points pf' ! (x * nat (height pf') + y) =
          Option.bind (find hit (I
            \<lparr> origin = Some (Vector3
                 (vx c - (\<bar>vx (maximum b)\<bar> + \<bar>vx (minimum b)\<bar>) / 2
                    + real x * (\<bar>vx (maximum b)\<bar> + \<bar>vx (minimum b)\<bar>) / real_of_int (width pf'))
                 (vy c + (case rh of None \<Rightarrow> vy (maximum b) + 10
                          | Some v \<Rightarrow> if v = 0 then vy (maximum b) + 10 else v))
                 (vz c - (\<bar>vz (maximum b)\<bar> + \<bar>vz (minimum b)\<bar>) / 2
                    + real y * (\<bar>vz (maximum b)\<bar> + \<bar>vz (minimum b)\<bar>) / real_of_int (height pf'))),
               direction = Vector3 0 (- 1) 0,
               rayLength = (case rl of None \<Rightarrow> 100 | Some v \<Rightarrow> if v = 0 then 100 else v) \<rparr>
            ms)) pickedPoint)"
proof -
  from fill_result [OF assms(2,3), of I ms rh rl] obtain pf' where
    r: "fill I ms rh rl pf = Inr pf'" "width pf' = width pf" "height pf' = width pf"
      "boundingInfo pf' = Some (combinedBounds ms)"
    and p: "points pf' =
       concat (map (\<lambda>i. map (\<lambda>j. Option.bind
           (find hit (I (cellRay (combinedBounds ms) (width pf) (width pf) rh rl i j) ms))
           pickedPoint) [0..<nat (width pf)]) [0..<nat (width pf)])"
    by blast
  let ?b = "combinedBounds ms"
  let ?c = "Vector3
           (sum_list (map (\<lambda>m. vx (centerWorld (meshBoundingInfo m))) ms) / real (length ms))
           (sum_list (map (\<lambda>m. vy (centerWorld (meshBoundingInfo m))) ms) / real (length ms))
           (sum_list (map (\<lambda>m. vz (centerWorld (meshBoundingInfo m))) ms) / real (length ms))"
  note cb = combinedBounds_closed [OF assms(1)]
  have c: "centerWorld ?b = Some ?c" by (subst cb) simp
  have lo: "minimum ?b =
       Vector3 (Min (insert 0 ((\<lambda>m. vx (minimum (meshBoundingInfo m))) ` set ms)))
               (Min (insert 0 ((\<lambda>m. vy (minimum (meshBoundingInfo m))) ` set ms)))
               (Min (insert 0 ((\<lambda>m. vz (minimum (meshBoundingInfo m))) ` set ms)))"
    by (subst cb) simp
  have hi: "maximum ?b =
       Vector3 (Max (insert 0 ((\<lambda>m. vx (maximum (meshBoundingInfo m))) ` set ms)))
               (Max (insert 0 ((\<lambda>m. vy (maximum (meshBoundingInfo m))) ` set ms)))
               (Max (insert 0 ((\<lambda>m. vz (maximum (meshBoundingInfo m))) ` set ms)))"
    by (subst cb) simp
  have cell: "points pf' ! (x * nat (height pf') + y) =
          Option.bind (find hit (I
            \<lparr> origin = Some (Vector3
                 (vx ?c - (\<bar>vx (maximum ?b)\<bar> + \<bar>vx (minimum ?b)\<bar>) / 2
                    + real x * (\<bar>vx (maximum ?b)\<bar> + \<bar>vx (minimum ?b)\<bar>) / real_of_int (width pf'))
                 (vy ?c + (case rh of None \<Rightarrow> vy (maximum ?b) + 10
                          | Some v \<Rightarrow> if v = 0 then vy (maximum ?b) + 10 else v))
                 (vz ?c - (\<bar>vz (maximum ?b)\<bar> + \<bar>vz (minimum ?b)\<bar>) / 2
                    + real y * (\<bar>vz (maximum ?b)\<bar> + \<bar>vz (minimum ?b)\<bar>) / real_of_int (height pf'))),
               direction = Vector3 0 (- 1) 0,
               rayLength = (case rl of None \<Rightarrow> 100 | Some v \<Rightarrow> if v = 0 then 100 else v) \<rparr>
            ms)) pickedPoint"
    if "x < nat (width pf')" "y < nat (height pf')" for x y
  proof -
    have xy: "x < nat (width pf)" "y < nat (width pf)" using that r(2,3) by simp_all
    have "points pf' ! (x * nat (width pf) + y) = Option.bind
           (find hit (I (cellRay ?b (width pf) (width pf) rh rl x y) ms)) pickedPoint"
      unfolding p by (rule nth_concat_rows [OF xy])
    then show ?thesis unfolding r(2,3) cellRay_closed [OF c] .
  qed
  show ?thesis
    by (intro exI [of _ pf'] exI [of _ ?b] exI [of _ ?c] conjI r(1,4) c lo hi refl allI impI cell)
qed

text \<open>The same on the example: the box of the centred mesh and its centre.\<close>

theorem fill_bounds_and_rays_witness:
  "[centredMesh] \<noteq> [] \<and> 0 \<le> width freshFinder \<and> width freshFinder < 2 ^ 31 \<and>
   (\<exists>pf' b. fill quadrantSurface [centredMesh] None None freshFinder = Inr pf' \<and>
      boundingInfo pf' = Some b \<and> centerWorld b = Some (Vector3 0 0 0) \<and>
      minimum b = Vector3 (- 1) 0 (- 1) \<and> maximum b = Vector3 1 0 1)"
proof -
  have h: "[centredMesh] \<noteq> []" "0 \<le> width freshFinder" "width freshFinder < 2 ^ 31"
    by (simp_all add: freshFinder_def)
  from fill_bounds_and_rays [OF h, of quadrantSurface None None]
  obtain pf' b c where "fill quadrantSurface [centredMesh] None None freshFinder = Inr pf'"
    "boundingInfo pf' = Some b" "centerWorld b = Some c"
    "minimum b =
       Vector3 (Min (insert 0 ((\<lambda>m. vx (minimum (meshBoundingInfo m))) ` set [centredMesh])))
               (Min (insert 0 ((\<lambda>m. vy (minimum (meshBoundingInfo m))) ` set [centredMesh])))
               (Min (insert 0 ((\<lambda>m. vz (minimum (meshBoundingInfo m))) ` set [centredMesh])))"
    "maximum b =
       Vector3 (Max (insert 0 ((\<lambda>m. vx (maximum (meshBoundingInfo m))) ` set [centredMesh])))
               (Max (insert 0 ((\<lambda>m. vy (maximum (meshBoundingInfo m))) ` set [centredMesh])))
               (Max (insert 0 ((\<lambda>m. vz (maximum (meshBoundingInfo m))) ` set [centredMesh])))"
    "c = Vector3
           (sum_list (map (\<lambda>m. vx (centerWorld (meshBoundingInfo m))) [centredMesh]) / real (length [centredMesh]))
           (sum_list (map (\<lambda>m. vy (centerWorld (meshBoundingInfo m))) [centredMesh]) / real (length [centredMesh]))
           (sum_list (map (\<lambda>m. vz (centerWorld (meshBoundingInfo m))) [centredMesh]) / real (length [centredMesh]))"
    by blast
  then have "fill quadrantSurface [centredMesh] None None freshFinder = Inr pf' \<and>
      boundingInfo pf' = Some b \<and> centerWorld b = Some (Vector3 0 0 0) \<and>
      minimum b = Vector3 (- 1) 0 (- 1) \<and> maximum b = Vector3 1 0 1"
    by (simp add: centredMesh_def)
  then show ?thesis using h by blast
qed

text \<open>
  Claim C4 as stated fails: for the single mesh whose box is \<open>(1, 1, 1)..(3, 3, 3)\<close> the
  combined minimum kept by \<open>fill\<close> is the origin, not the mesh's minimum; and with the
  ray height 0 the ray of a cell starts 10 above the highest point, not at height 0.
\<close>

theorem fill_bounds_counterexample:
  "(case fill quadrantSurface [offsetMesh] None None freshFinder of
      Inl e \<Rightarrow> False
    | Inr pf' \<Rightarrow> map_option minimum (boundingInfo pf') = Some (Vector3 0 0 0))
   \<and> minimum (meshBoundingInfo offsetMesh) = Vector3 1 1 1
   \<and> origin (cellRay (combinedBounds [centredMesh]) 2 2 (Some 0) None 0 0)
       = Some (Vector3 (- 1) 10 (- 1))"
proof -
  have h: "[offsetMesh] \<noteq> []" "0 \<le> width freshFinder" "width freshFinder < 2 ^ 31"
    by (simp_all add: freshFinder_def)
  from fill_result [OF h(2,3), of quadrantSurface "[offsetMesh]" None None]
  obtain pf' where r: "fill quadrantSurface [offsetMesh] None None freshFinder = Inr pf'"
    "boundingInfo pf' = Some (combinedBounds [offsetMesh])"
    by blast
  have m: "minimum (combinedBounds [offsetMesh]) = Vector3 0 0 0"
    by (simp add: combinedBounds_def accumulate_def offsetMesh_def Zero_def)
  have o: "origin (cellRay (combinedBounds [centredMesh]) 2 2 (Some 0) None 0 0)
       = Some (Vector3 (- 1) 10 (- 1))"
    by (simp add: centred_bounds cellRay_def startCorner_def extentX_def extentY_def
        orDefault_def v3_add_def v3_subtract_def)
  show ?thesis using r m o by (simp add: offsetMesh_def)
qed

section \<open>The graph after fill\<close>

lemma nodeAt_rows:
  "nodeAt \<lparr> grid = map (\<lambda>i. map (n i) [0..<h]) [0..<w], diagonal = d \<rparr> c =
     (if fst c < w \<and> snd c < h then Some (n (fst c) (snd c)) else None)"
  by (auto simp add: nodeAt_def)

section \<open>Empty and degenerate inputs of fill\<close>

lemma flat_bounds:
  "combinedBounds [flatMesh] =
     \<lparr> minimum = Vector3 0 0 (- 1), maximum = Vector3 0 0 1,
       centerWorld = Some (Vector3 0 0 0) \<rparr>"
  by (simp add: combinedBounds_def accumulate_def flatMesh_def Zero_def v3_add_def)

lemma flat_cast:
  "find hit (quadrantSurface (cellRay (combinedBounds [flatMesh]) 2 2 None None i j)
       [flatMesh]) =
     (if 1 \<le> real j
      then Some \<lparr> hit = True, pickedPoint = Some (Vector3 0 0 (real j - 1)) \<rparr>
      else None)"
  by (simp add: flat_bounds quadrantSurface_def cellRay_def startCorner_def extentX_def
      extentY_def orDefault_def v3_add_def v3_subtract_def)

lemma fill_returns:
  assumes "0 \<le> width pf" "width pf < 2 ^ 31"
  shows "\<exists>pf'. fill I ms rh rl pf = Inr pf' \<and> width pf' = width pf \<and> height pf' = width pf"
  using fill_result [OF assms, of I ms rh rl] by blast

lemma fill_cell:
  assumes "0 \<le> width pf" "width pf < 2 ^ 31" "fill I ms rh rl pf = Inr pf'"
    and "x < nat (width pf')" "y < nat (height pf')"
  shows "points pf' ! (x * nat (height pf') + y) =
           Option.bind (find hit (I (cellRay (combinedBounds ms) (width pf') (height pf') rh rl x y) ms))
             pickedPoint"
    and "buffer pf' ! x ! y =
           Some (case find hit (I (cellRay (combinedBounds ms) (width pf') (height pf') rh rl x y) ms)
                 of None \<Rightarrow> 0 | Some h \<Rightarrow> 1)"
proof -
  from fill_result [OF assms(1,2), of I ms rh rl] obtain pf'' where
    r: "fill I ms rh rl pf = Inr pf''" "width pf'' = width pf" "height pf'' = width pf"
    and p: "points pf'' =
       concat (map (\<lambda>i. map (\<lambda>j. Option.bind
           (find hit (I (cellRay (combinedBounds ms) (width pf) (width pf) rh rl i j) ms))
           pickedPoint) [0..<nat (width pf)]) [0..<nat (width pf)])"
    and b: "buffer pf'' =
       map (\<lambda>i. map (\<lambda>j. Some (case
           find hit (I (cellRay (combinedBounds ms) (width pf) (width pf) rh rl i j) ms)
           of None \<Rightarrow> 0 | Some h \<Rightarrow> 1)) [0..<nat (width pf)]) [0..<nat (width pf)]"
    by blast
  have same: "pf'' = pf'" using r(1) assms(3) by simp
  have xy: "x < nat (width pf)" "y < nat (width pf)"
    using assms(4,5) r(2,3) unfolding same by simp_all
  show "points pf' ! (x * nat (height pf') + y) =
           Option.bind (find hit (I (cellRay (combinedBounds ms) (width pf') (height pf') rh rl x y) ms))
             pickedPoint"
    using nth_concat_rows [OF xy, of "\<lambda>i j. Option.bind
           (find hit (I (cellRay (combinedBounds ms) (width pf) (width pf) rh rl i j) ms))
           pickedPoint"]
    unfolding p [unfolded same, symmetric] r(2,3) [unfolded same] .
  show "buffer pf' ! x ! y =
           Some (case find hit (I (cellRay (combinedBounds ms) (width pf') (height pf') rh rl x y) ms)
                 of None \<Rightarrow> 0 | Some h \<Rightarrow> 1)"
    unfolding b [unfolded same] r(2,3) [unfolded same] using xy by simp
qed

text \<open>
  Claim C8, as the code has it. \<open>fill\<close> returns on every path finder whose width is a
  non-negative 32-bit integer. With no surface (and a ray intersection that reports
  nothing when there is no mesh) every cell is unwalkable and has no point; with the
  grid size 0 the mask and the point array are empty; with degenerate bounds nothing
  special happens: a cell is walkable exactly when its ray reports a hit.
\<close>

theorem fill_degrades:
  "(0 \<le> width pf \<and> width pf < 2 ^ 31 \<and> (\<forall>r. I r [] = []) \<longrightarrow>
      (\<exists>pf'. fill I [] rh rl pf = Inr pf' \<and>
         (\<forall>x < nat (width pf'). \<forall>y < nat (height pf').
            buffer pf' ! x ! y = Some 0 \<and> \<not> cellWalkable pf' x y \<and>
            points pf' ! (x * nat (height pf') + y) = None))) \<and>
   (width pf = 0 \<longrightarrow>
      (\<exists>pf'. fill I ms rh rl pf = Inr pf' \<and> width pf' = 0 \<and> height pf' = 0 \<and>
         buffer pf' = [] \<and> points pf' = [])) \<and>
   (0 \<le> width pf \<and> width pf < 2 ^ 31 \<and>
    (extentX (combinedBounds ms) = 0 \<or> extentY (combinedBounds ms) = 0) \<longrightarrow>
      (\<exists>pf'. fill I ms rh rl pf = Inr pf' \<and>
         (\<forall>x < nat (width pf'). \<forall>y < nat (height pf').
            cellWalkable pf' x y =
              (find hit (I (cellRay (combinedBounds ms) (width pf') (height pf') rh rl x y) ms)
                 \<noteq> None))))"
proof (intro conjI impI)
  assume a: "0 \<le> width pf \<and> width pf < 2 ^ 31 \<and> (\<forall>r. I r [] = [])"
  then have w: "0 \<le> width pf" "width pf < 2 ^ 31" and e: "\<And>r. I r [] = []" by simp_all
  from fill_returns [OF w, of I "[]" rh rl] obtain pf' where
    r: "fill I [] rh rl pf = Inr pf'" by blast
  have "buffer pf' ! x ! y = Some 0 \<and> \<not> cellWalkable pf' x y \<and>
            points pf' ! (x * nat (height pf') + y) = None"
    if "x < nat (width pf')" "y < nat (height pf')" for x y
    using fill_cell [OF w r that] unfolding e cellWalkable_def by simp
  then have cells: "\<forall>x < nat (width pf'). \<forall>y < nat (height pf').
            buffer pf' ! x ! y = Some 0 \<and> \<not> cellWalkable pf' x y \<and>
            points pf' ! (x * nat (height pf') + y) = None"
    by simp
  show "\<exists>pf'. fill I [] rh rl pf = Inr pf' \<and>
         (\<forall>x < nat (width pf'). \<forall>y < nat (height pf').
            buffer pf' ! x ! y = Some 0 \<and> \<not> cellWalkable pf' x y \<and>
            points pf' ! (x * nat (height pf') + y) = None)"
    by (intro exI [of _ pf'] conjI r cells)
next
  assume z: "width pf = 0"
  then have w: "0 \<le> width pf" "width pf < 2 ^ 31" by simp_all
  from fill_result [OF w, of I ms rh rl] obtain pf' where
    r: "fill I ms rh rl pf = Inr pf'" "width pf' = width pf" "height pf' = width pf"
    and p: "points pf' =
       concat (map (\<lambda>i. map (\<lambda>j. Option.bind
           (find hit (I (cellRay (combinedBounds ms) (width pf) (width pf) rh rl i j) ms))
           pickedPoint) [0..<nat (width pf)]) [0..<nat (width pf)])"
    and b: "buffer pf' =
       map (\<lambda>i. map (\<lambda>j. Some (case
           find hit (I (cellRay (combinedBounds ms) (width pf) (width pf) rh rl i j) ms)
           of None \<Rightarrow> 0 | Some h \<Rightarrow> 1)) [0..<nat (width pf)]) [0..<nat (width pf)]"
    by blast
  have e: "[0..<nat (width pf)] = []" using z by simp
  have p': "points pf' = []" unfolding p e by simp
  have b': "buffer pf' = []" unfolding b e by simp
  have w': "width pf' = 0" "height pf' = 0" using r(2,3) z by simp_all
  show "\<exists>pf'. fill I ms rh rl pf = Inr pf' \<and> width pf' = 0 \<and> height pf' = 0 \<and>
         buffer pf' = [] \<and> points pf' = []"
    by (intro exI [of _ pf'] conjI r(1) w' b' p')
next
  assume a: "0 \<le> width pf \<and> width pf < 2 ^ 31 \<and>
    (extentX (combinedBounds ms) = 0 \<or> extentY (combinedBounds ms) = 0)"
  then have w: "0 \<le> width pf" "width pf < 2 ^ 31" by simp_all
  from fill_returns [OF w, of I ms rh rl] obtain pf' where
    r: "fill I ms rh rl pf = Inr pf'" by blast
  have "cellWalkable pf' x y =
          (find hit (I (cellRay (combinedBounds ms) (width pf') (height pf') rh rl x y) ms) \<noteq> None)"
    if "x < nat (width pf')" "y < nat (height pf')" for x y
    unfolding cellWalkable_def fill_cell(2) [OF w r that]
    by (simp split: option.split)
  then have cells: "\<forall>x < nat (width pf'). \<forall>y < nat (height pf').
            cellWalkable pf' x y =
              (find hit (I (cellRay (combinedBounds ms) (width pf') (height pf') rh rl x y) ms)
                 \<noteq> None)"
    by simp
  show "\<exists>pf'. fill I ms rh rl pf = Inr pf' \<and>
         (\<forall>x < nat (width pf'). \<forall>y < nat (height pf').
            cellWalkable pf' x y =
              (find hit (I (cellRay (combinedBounds ms) (width pf') (height pf') rh rl x y) ms)
                 \<noteq> None))"
    by (intro exI [of _ pf'] conjI r cells)
qed

text \<open>
  The three cases on examples: no mesh on the grid of size 2, a mesh on the grid of
  size 0, and the mesh without extent along \<open>x\<close> on the grid of size 2.
\<close>

theorem fill_degrades_witness:
  "(0 \<le> width freshFinder \<and> width freshFinder < 2 ^ 31 \<and>
    (\<forall>r. quadrantSurface r [] = []) \<and>
    (\<exists>pf'. fill quadrantSurface [] None None freshFinder = Inr pf' \<and>
         (\<forall>x < nat (width pf'). \<forall>y < nat (height pf').
            buffer pf' ! x ! y = Some 0 \<and> \<not> cellWalkable pf' x y \<and>
            points pf' ! (x * nat (height pf') + y) = None))) \<and>
   (width initial = 0 \<and>
    (\<exists>pf'. fill quadrantSurface [centredMesh] None None initial = Inr pf' \<and>
         width pf' = 0 \<and> height pf' = 0 \<and> buffer pf' = [] \<and> points pf' = [])) \<and>
   (extentX (combinedBounds [flatMesh]) = 0 \<and>
    (\<exists>pf'. fill quadrantSurface [flatMesh] None None freshFinder = Inr pf' \<and>
         (\<forall>x < nat (width pf'). \<forall>y < nat (height pf').
            cellWalkable pf' x y =
              (find hit (quadrantSurface
                  (cellRay (combinedBounds [flatMesh]) (width pf') (height pf') None None x y)
                  [flatMesh]) \<noteq> None))))"
proof -
  have w: "0 \<le> width freshFinder \<and> width freshFinder < 2 ^ 31"
    by (simp add: freshFinder_def)
  have q: "\<forall>r. quadrantSurface r [] = []"
    by (simp add: quadrantSurface_def split: option.split)
  have z: "width initial = 0" by (simp add: initial_def)
  have x: "extentX (combinedBounds [flatMesh]) = 0"
    by (simp add: flat_bounds extentX_def)
  note t1 = fill_degrades [of freshFinder quadrantSurface None None "[]",
      THEN conjunct1, THEN mp]
  note t2 = fill_degrades [of initial quadrantSurface None None "[centredMesh]",
      THEN conjunct2, THEN conjunct1, THEN mp, OF z]
  note t3 = fill_degrades [of freshFinder quadrantSurface None None "[flatMesh]",
      THEN conjunct2, THEN conjunct2, THEN mp]
  have a1: "\<exists>pf'. fill quadrantSurface [] None None freshFinder = Inr pf' \<and>
         (\<forall>x < nat (width pf'). \<forall>y < nat (height pf').
            buffer pf' ! x ! y = Some 0 \<and> \<not> cellWalkable pf' x y \<and>
            points pf' ! (x * nat (height pf') + y) = None)"
    using w q by (intro t1) simp
  have a3: "\<exists>pf'. fill quadrantSurface [flatMesh] None None freshFinder = Inr pf' \<and>
         (\<forall>x < nat (width pf'). \<forall>y < nat (height pf').
            cellWalkable pf' x y =
              (find hit (quadrantSurface
                  (cellRay (combinedBounds [flatMesh]) (width pf') (height pf') None None x y)
                  [flatMesh]) \<noteq> None))"
    using w x by (intro t3) simp
  show ?thesis using w q z x a1 t2 a3 by (intro conjI) simp_all
qed

text \<open>
  Claim C8 as stated fails for degenerate bounds: the flat mesh has \<open>xd = 0\<close>, and on the
  grid of size 2 the cells \<open>(0, 1)\<close> and \<open>(1, 1)\<close>, whose rays hit, are walkable.
\<close>

theorem fill_degenerate_counterexample:
  "extentX (combinedBounds [flatMesh]) = 0 \<and>
   (case fill quadrantSurface [flatMesh] None None freshFinder of
      Inl e \<Rightarrow> False
    | Inr pf' \<Rightarrow> buffer pf' = [[Some 0, Some 1], [Some 0, Some 1]] \<and>
        cellWalkable pf' 0 1 \<and> cellWalkable pf' 1 1)"
proof -
  have w: "0 \<le> width freshFinder" "width freshFinder < 2 ^ 31" "width freshFinder = 2"
    by (simp_all add: freshFinder_def)
  from fill_result [OF w(1,2), of quadrantSurface "[flatMesh]" None None]
  obtain pf' where r: "fill quadrantSurface [flatMesh] None None freshFinder = Inr pf'"
    and b: "buffer pf' =
       map (\<lambda>i. map (\<lambda>j. Some (case
           find hit (quadrantSurface (cellRay (combinedBounds [flatMesh]) 2 2 None None i j)
              [flatMesh])
           of None \<Rightarrow> 0 | Some h \<Rightarrow> 1)) [0..<nat 2]) [0..<nat 2]"
    unfolding w(3) by blast
  have n: "[0..<nat 2] = [0, 1]" by (simp add: numeral_2_eq_2)
  have b': "buffer pf' = [[Some 0, Some 1], [Some 0, Some 1]]"
    unfolding b n by (simp add: flat_cast)
  have x: "extentX (combinedBounds [flatMesh]) = 0"
    by (simp add: flat_bounds extentX_def)
  show ?thesis using r b' x by (simp add: cellWalkable_def)
qed

section \<open>Nearest sampled point\<close>

lemma nearer_None: "nearer D pt None (L, n) = (L, n)"
  by (simp add: nearer_def)

lemma nearer_Some:
  "nearer D pt (Some q) (L, n) =
     (case D q pt of None \<Rightarrow> (L, n) | Some d \<Rightarrow> if d < L then (d, q) else (L, n))"
  by (simp add: nearer_def)

lemma fold_nearer_le:
  "fold (nearer D pt) ps (L, n) = (L', n') \<Longrightarrow>
     L' \<le> L \<and> (\<forall>q d. Some q \<in> set ps \<longrightarrow> D q pt = Some d \<longrightarrow> L' \<le> d)"
proof (induction ps arbitrary: L n)
  case Nil
  then show ?case by simp
next
  case (Cons p ps)
  show ?case
  proof (cases p)
    case None
    then have "fold (nearer D pt) ps (L, n) = (L', n')"
      using Cons.prems by (simp add: nearer_None)
    from Cons.IH [OF this] show ?thesis using None by simp
  next
    case (Some q)
    show ?thesis
    proof (cases "D q pt")
      case inf: None
      then have "fold (nearer D pt) ps (L, n) = (L', n')"
        using Cons.prems Some by (simp add: nearer_Some)
      from Cons.IH [OF this] show ?thesis using Some inf by auto
    next
      case num: (Some dq)
      show ?thesis
      proof (cases "dq < L")
        case True
        then have "fold (nearer D pt) ps (dq, q) = (L', n')"
          using Cons.prems Some num by (simp add: nearer_Some)
        from Cons.IH [OF this]
        have 1: "L' \<le> dq" and 2: "\<forall>q d. Some q \<in> set ps \<longrightarrow> D q pt = Some d \<longrightarrow> L' \<le> d"
          by simp_all
        from 1 True have "L' \<le> L" by linarith
        then show ?thesis using 1 2 Some num by auto
      next
        case False
        then have "fold (nearer D pt) ps (L, n) = (L', n')"
          using Cons.prems Some num by (simp add: nearer_Some)
        from Cons.IH [OF this]
        have 1: "L' \<le> L" and 2: "\<forall>q d. Some q \<in> set ps \<longrightarrow> D q pt = Some d \<longrightarrow> L' \<le> d"
          by simp_all
        from 1 False have "L' \<le> dq" by linarith
        then show ?thesis using 1 2 Some num by auto
      qed
    qed
  qed
qed

lemma fold_nearer_choice:
  "fold (nearer D pt) ps (L, n) = (L', n') \<Longrightarrow>
     (L' = L \<and> n' = n) \<or> (Some n' \<in> set ps \<and> D n' pt = Some L' \<and> L' < L)"
proof (induction ps arbitrary: L n)
  case Nil
  then show ?case by simp
next
  case (Cons p ps)
  show ?case
  proof (cases p)
    case None
    then have "fold (nearer D pt) ps (L, n) = (L', n')"
      using Cons.prems by (simp add: nearer_None)
    from Cons.IH [OF this] show ?thesis by auto
  next
    case (Some q)
    show ?thesis
    proof (cases "D q pt")
      case inf: None
      then have "fold (nearer D pt) ps (L, n) = (L', n')"
        using Cons.prems Some by (simp add: nearer_Some)
      from Cons.IH [OF this] show ?thesis by auto
    next
      case num: (Some dq)
      show ?thesis
      proof (cases "dq < L")
        case True
        then have "fold (nearer D pt) ps (dq, q) = (L', n')"
          using Cons.prems Some num by (simp add: nearer_Some)
        from Cons.IH [OF this]
        have "(L' = dq \<and> n' = q) \<or> (Some n' \<in> set ps \<and> D n' pt = Some L' \<and> L' < dq)" .
        then show ?thesis
        proof
          assume "L' = dq \<and> n' = q"
          then show ?thesis using True Some num by simp
        next
          assume a: "Some n' \<in> set ps \<and> D n' pt = Some L' \<and> L' < dq"
          then have "L' < L" using True by linarith
          then show ?thesis using a by simp
        qed
      next
        case False
        then have "fold (nearer D pt) ps (L, n) = (L', n')"
          using Cons.prems Some num by (simp add: nearer_Some)
        from Cons.IH [OF this] show ?thesis by auto
      qed
    qed
  qed
qed

text \<open>
  Claim C10, as the code has it: when some sampled point that is present has a computed
  distance to the query that is a number below \<open>Number.MAX_VALUE\<close>, \<open>findNearestPoint\<close>
  returns a sampled point whose computed distance is such a number and is minimal among
  the computed distances of the points present; when none has (no points, only absent
  points, or only points whose computed distance is Infinity or not below
  \<open>MAX_VALUE\<close>), it returns the query point itself.
\<close>

theorem findNearestPoint_nearest:
  "((\<exists>q d. Some q \<in> set (points pf) \<and> D q pt = Some d \<and> d < MAX_VALUE) \<longrightarrow>
      (\<exists>d. Some (findNearestPoint D pf pt) \<in> set (points pf) \<and>
           D (findNearestPoint D pf pt) pt = Some d \<and> d < MAX_VALUE \<and>
           (\<forall>q d'. Some q \<in> set (points pf) \<longrightarrow> D q pt = Some d' \<longrightarrow> d \<le> d'))) \<and>
   ((\<forall>q d. Some q \<in> set (points pf) \<longrightarrow> D q pt = Some d \<longrightarrow> \<not> d < MAX_VALUE) \<longrightarrow>
      findNearestPoint D pf pt = pt)"
proof -
  obtain L' n' where r: "fold (nearer D pt) (points pf) (MAX_VALUE, pt) = (L', n')"
    by (cases "fold (nearer D pt) (points pf) (MAX_VALUE, pt)") simp
  then have n: "findNearestPoint D pf pt = n'"
    by (simp add: findNearestPoint_def)
  note le = fold_nearer_le [OF r]
  note ch = fold_nearer_choice [OF r]
  have first: "\<exists>d. Some n' \<in> set (points pf) \<and> D n' pt = Some d \<and> d < MAX_VALUE \<and>
      (\<forall>q d'. Some q \<in> set (points pf) \<longrightarrow> D q pt = Some d' \<longrightarrow> d \<le> d')"
    if ex: "\<exists>q d. Some q \<in> set (points pf) \<and> D q pt = Some d \<and> d < MAX_VALUE"
  proof -
    from ex obtain q d where q: "Some q \<in> set (points pf)" "D q pt = Some d" "d < MAX_VALUE"
      by blast
    from le q(1,2) have "L' \<le> d" by blast
    with q(3) have "L' \<noteq> MAX_VALUE" by linarith
    with ch have c: "Some n' \<in> set (points pf)" "D n' pt = Some L'" "L' < MAX_VALUE" by auto
    from le have m: "\<forall>q d'. Some q \<in> set (points pf) \<longrightarrow> D q pt = Some d' \<longrightarrow> L' \<le> d'"
      by (rule conjunct2)
    show ?thesis by (intro exI [of _ L'] conjI c m)
  qed
  have second: "n' = pt"
    if no: "\<forall>q d. Some q \<in> set (points pf) \<longrightarrow> D q pt = Some d \<longrightarrow> \<not> d < MAX_VALUE"
  proof (rule ccontr)
    assume "n' \<noteq> pt"
    with ch have c: "Some n' \<in> set (points pf)" "D n' pt = Some L'" "L' < MAX_VALUE"
      by auto
    from no c(1,2) have "\<not> L' < MAX_VALUE" by blast
    with c(3) show False by simp
  qed
  show ?thesis unfolding n using first second by (intro conjI impI)
qed

text \<open>The computed distance of the examples at the inputs used below.\<close>

lemma MAX_VALUE_large: "4 \<le> MAX_VALUE"
proof -
  have p1: "(2::real) ^ 1024 = 2 ^ 971 * 2 ^ 53"
    by (simp flip: power_add)
  have p2: "(1::real) \<le> 2 ^ 971"
    by (rule one_le_power) simp
  have p3: "(4::real) \<le> 2 ^ 53 - 1" by simp
  have p4: "MAX_VALUE = 2 ^ 971 * (2 ^ 53 - 1)"
    unfolding MAX_VALUE_def p1 by (simp only: right_diff_distrib mult_1_right)
  have p5: "1 * (4::real) \<le> 2 ^ 971 * (2 ^ 53 - 1)"
    by (rule mult_mono [OF p2 p3]) simp_all
  show ?thesis unfolding p4 using p5 by (simp only: mult_1)
qed

lemma underflow_bound: "1 / (2::real) ^ 1075 < 1"
proof -
  have "(1::real) < 2 ^ 1075" by (rule one_less_power) simp_all
  then show ?thesis by (simp only: divide_less_eq_1_pos zero_less_power zero_less_numeral
        divide_less_eq_1 simp_thms)
qed

lemma squared_zero: "squared 0 = 0"
  by (simp add: squared_def)

lemma squared_exact:
  assumes "1 \<le> d * d"
  shows "squared d = d * d"
proof -
  have "\<not> d * d \<le> 1 / 2 ^ 1075" using assms underflow_bound by linarith
  then show ?thesis unfolding squared_def by (rule if_not_P)
qed

lemma squared_underflow: "squared (1 / 2 ^ 600) = 0"
proof -
  have "(1 / (2::real) ^ 600) * (1 / 2 ^ 600) = 1 / 2 ^ 1200"
    by (simp only: times_divide_times_eq mult_1 flip: power_add) simp
  moreover have "1 / (2::real) ^ 1200 \<le> 1 / 2 ^ 1075"
  proof (rule divide_left_mono)
    show "(2::real) ^ 1075 \<le> 2 ^ 1200" by (rule power_increasing) simp_all
    show "(0::real) \<le> 1" by simp
    show "(0::real) < 2 ^ 1200 * 2 ^ 1075" by (intro mult_pos_pos zero_less_power) simp_all
  qed
  ultimately show ?thesis unfolding squared_def by (simp only: if_P)
qed

lemma computedDistance_axis:
  assumes "1 \<le> a * a" "a * a \<le> MAX_VALUE"
  shows "computedDistance (Vector3 a 0 0) (Vector3 0 0 0) = Some \<bar>a\<bar>"
  using assms by (simp add: computedDistance_def squared_zero squared_exact Let_def)

lemma computedDistance_overflow:
  "computedDistance (Vector3 MAX_VALUE 0 0) (Vector3 0 0 0) = None"
proof -
  have m: "1 \<le> MAX_VALUE" "0 < MAX_VALUE" using MAX_VALUE_large by linarith+
  have "MAX_VALUE * 1 < MAX_VALUE * MAX_VALUE"
    using MAX_VALUE_large m(2) by (intro mult_strict_left_mono) linarith+
  then have big: "MAX_VALUE < MAX_VALUE * MAX_VALUE" by simp
  then have "1 \<le> MAX_VALUE * MAX_VALUE" using m(1) by linarith
  then have "squared MAX_VALUE = MAX_VALUE * MAX_VALUE" by (rule squared_exact)
  then show ?thesis using big by (simp add: computedDistance_def squared_zero Let_def)
qed

lemma computedDistance_underflow:
  "computedDistance tinyPoint (Vector3 0 0 0) = Some 0"
proof -
  have "0 < MAX_VALUE" using MAX_VALUE_large by linarith
  then show ?thesis
    unfolding computedDistance_def Let_def tinyPoint_def
    by (simp only: Vector3.sel diff_zero squared_underflow squared_zero add_0_right
        not_less [symmetric] if_False real_sqrt_zero) (simp add: not_less)
qed

lemma computedDistance_origin:
  "computedDistance (Vector3 0 0 0) (Vector3 0 0 0) = Some 0"
proof -
  have "0 < MAX_VALUE" using MAX_VALUE_large by linarith
  then show ?thesis by (simp add: computedDistance_def squared_zero Let_def)
qed

text \<open>
  The same on two small point arrays, one of them without any point present, with the
  computed distance of the examples.
\<close>

theorem findNearestPoint_nearest_witness:
  "(\<exists>q d. Some q \<in> set (points (initial\<lparr> points := [None, Some (Vector3 2 0 0), Some (Vector3 1 0 0)] \<rparr>))
          \<and> computedDistance q (Vector3 0 0 0) = Some d \<and> d < MAX_VALUE) \<and>
   (\<exists>d. Some (findNearestPoint computedDistance
              (initial\<lparr> points := [None, Some (Vector3 2 0 0), Some (Vector3 1 0 0)] \<rparr>) (Vector3 0 0 0))
          \<in> set (points (initial\<lparr> points := [None, Some (Vector3 2 0 0), Some (Vector3 1 0 0)] \<rparr>)) \<and>
        computedDistance (findNearestPoint computedDistance
              (initial\<lparr> points := [None, Some (Vector3 2 0 0), Some (Vector3 1 0 0)] \<rparr>) (Vector3 0 0 0))
            (Vector3 0 0 0) = Some d \<and> d < MAX_VALUE \<and>
        (\<forall>q d'. Some q \<in> set (points (initial\<lparr> points := [None, Some (Vector3 2 0 0), Some (Vector3 1 0 0)] \<rparr>)) \<longrightarrow>
            computedDistance q (Vector3 0 0 0) = Some d' \<longrightarrow> d \<le> d')) \<and>
   findNearestPoint computedDistance (initial\<lparr> points := [None] \<rparr>) (Vector3 0 0 0) = Vector3 0 0 0"
proof -
  have one: "computedDistance (Vector3 1 0 0) (Vector3 0 0 0) = Some 1"
    using computedDistance_axis [of 1] MAX_VALUE_large by simp
  have h: "\<exists>q d. Some q \<in> set (points (initial\<lparr> points := [None, Some (Vector3 2 0 0), Some (Vector3 1 0 0)] \<rparr>))
          \<and> computedDistance q (Vector3 0 0 0) = Some d \<and> d < MAX_VALUE"
    using MAX_VALUE_large one by (intro exI [of _ "Vector3 1 0 0"] exI [of _ 1]) simp
  have e: "\<forall>q d. Some q \<in> set (points (initial\<lparr> points := [None] \<rparr>)) \<longrightarrow>
      computedDistance q (Vector3 0 0 0) = Some d \<longrightarrow> \<not> d < MAX_VALUE"
    by simp
  note a = findNearestPoint_nearest [where D = computedDistance and pt = "Vector3 0 0 0"
      and pf = "initial\<lparr> points := [None, Some (Vector3 2 0 0), Some (Vector3 1 0 0)] \<rparr>",
      THEN conjunct1, THEN mp, OF h]
  note b = findNearestPoint_nearest [where D = computedDistance and pt = "Vector3 0 0 0"
      and pf = "initial\<lparr> points := [None] \<rparr>", THEN conjunct2, THEN mp, OF e]
  show ?thesis by (intro conjI h a b)
qed

text \<open>
  Claim C10 as stated fails. With the single sampled point \<open>(MAX_VALUE, 0, 0)\<close> and the
  query at the origin the candidate set is not empty, yet the square overflows, the
  computed distance is Infinity and the result is the query point, which is not a
  sampled point. With the sampled points \<open>tinyPoint = (2 ^ - 600, 0, 0)\<close> and the origin, the square
  underflows, both computed distances are 0 and the result is the first point, whose
  Euclidean distance to the query is not minimal.
\<close>

theorem findNearestPoint_far_counterexample:
  "findNearestPoint computedDistance (initial\<lparr> points := [Some (Vector3 MAX_VALUE 0 0)] \<rparr>)
      (Vector3 0 0 0) = Vector3 0 0 0
   \<and> Some (Vector3 0 0 0) \<notin> set (points (initial\<lparr> points := [Some (Vector3 MAX_VALUE 0 0)] \<rparr>))
   \<and> findNearestPoint computedDistance
        (initial\<lparr> points := [Some tinyPoint, Some (Vector3 0 0 0)] \<rparr>)
        (Vector3 0 0 0) = tinyPoint
   \<and> euclidean (Vector3 0 0 0) (Vector3 0 0 0)
       < euclidean tinyPoint (Vector3 0 0 0)"
proof -
  have m: "0 < MAX_VALUE" "MAX_VALUE \<noteq> 0" using MAX_VALUE_large by linarith+
  have far: "findNearestPoint computedDistance
      (initial\<lparr> points := [Some (Vector3 MAX_VALUE 0 0)] \<rparr>) (Vector3 0 0 0) = Vector3 0 0 0"
    by (simp add: findNearestPoint_def nearer_Some computedDistance_overflow)
  have out: "Some (Vector3 0 0 0) \<notin> set (points (initial\<lparr> points := [Some (Vector3 MAX_VALUE 0 0)] \<rparr>))"
    using m(2) by simp
  have s1: "nearer computedDistance (Vector3 0 0 0) (Some tinyPoint)
              (MAX_VALUE, Vector3 0 0 0) = (0, tinyPoint)"
    unfolding nearer_Some computedDistance_underflow using m(1) by simp
  have s2: "nearer computedDistance (Vector3 0 0 0) (Some (Vector3 0 0 0))
              (0, tinyPoint) = (0, tinyPoint)"
    unfolding nearer_Some computedDistance_origin by simp
  have near: "findNearestPoint computedDistance
        (initial\<lparr> points := [Some tinyPoint, Some (Vector3 0 0 0)] \<rparr>)
        (Vector3 0 0 0) = tinyPoint"
    unfolding findNearestPoint_def by (simp add: s1 s2)
  have e0: "euclidean (Vector3 0 0 0) (Vector3 0 0 0) = 0"
    by (simp add: euclidean_def)
  have e1: "euclidean tinyPoint (Vector3 0 0 0) = 1 / 2 ^ 600"
    unfolding euclidean_def tinyPoint_def
    by (simp only: Vector3.sel diff_zero mult_zero_left add_0_right real_sqrt_abs2) simp
  have pos: "(0::real) < 1 / 2 ^ 600"
    by (intro divide_pos_pos zero_less_power) simp_all
  show ?thesis unfolding e0 e1 by (intro conjI far out near pos)
qed

section \<open>Projection of a node path\<close>











section \<open>Nodes, edges and points of the graph\<close>

text \<open>
  Claim C3: \<open>fill\<close> on a path finder of width \<open>w\<close> leaves a grid of that width and
  height, a mask of \<open>w\<close> rows of \<open>w\<close> cells and a graph without diagonal movement that
  has exactly one node per cell of the mask: \<open>w\<close> rows of \<open>w\<close> nodes, \<open>w * w\<close> in all,
  listed with their coordinates in the order of the cells, each with the value of its
  cell as cost. Two nodes share an edge exactly when their cells are both in the grid,
  orthogonally adjacent and both walkable, a cell being walkable exactly when its ray
  hit. The node \<open>(x, y)\<close> carries the entry \<open>y * width + x\<close> of the point array, which
  the rasterising loop filled with what the ray of the cell \<open>(y, x)\<close> picked.
\<close>

theorem fill_graph:
  assumes "0 \<le> width pf" "width pf < 2 ^ 31"
  shows "\<exists>pf' g. fill I ms rh rl pf = Inr pf' \<and> graph pf' = Some g \<and> diagonal g = False \<and>
     width pf' = width pf \<and> height pf' = width pf \<and>
     length (buffer pf') = nat (width pf) \<and> length (grid g) = nat (width pf) \<and>
     length (concat (grid g)) = nat (width pf) * nat (width pf) \<and>
     map (\<lambda>n. (node_x n, node_y n)) (concat (grid g))
       = List.product [0..<nat (width pf)] [0..<nat (width pf)] \<and>
     (\<forall>x < nat (width pf).
        length (grid g ! x) = nat (width pf) \<and> length (buffer pf' ! x) = nat (width pf)) \<and>
     (\<forall>x < nat (width pf). \<forall>y < nat (width pf).
        nodeAt g (x, y) = Some (grid g ! x ! y) \<and>
        node_x (grid g ! x ! y) = x \<and> node_y (grid g ! x ! y) = y \<and>
        weight (grid g ! x ! y) = buffer pf' ! x ! y \<and>
        cellWalkable pf' x y =
          (find hit (I (cellRay (combinedBounds ms) (width pf) (width pf) rh rl x y) ms) \<noteq> None) \<and>
        point (grid g ! x ! y) = points pf' ! (y * nat (width pf) + x) \<and>
        point (grid g ! x ! y) =
          Option.bind (find hit (I (cellRay (combinedBounds ms) (width pf) (width pf) rh rl y x) ms))
            pickedPoint) \<and>
     (\<forall>a b. edge g a b =
        (fst a < nat (width pf) \<and> snd a < nat (width pf) \<and>
         fst b < nat (width pf) \<and> snd b < nat (width pf) \<and>
         \<bar>int (fst a) - int (fst b)\<bar> + \<bar>int (snd a) - int (snd b)\<bar> = 1 \<and>
         cellWalkable pf' (fst a) (snd a) \<and> cellWalkable pf' (fst b) (snd b)))"
proof -
  let ?w = "nat (width pf)"
  let ?F = "\<lambda>i j. find hit (I (cellRay (combinedBounds ms) (width pf) (width pf) rh rl i j) ms)"
  from fill_result [OF assms, of I ms rh rl] obtain pf' where
    r: "fill I ms rh rl pf = Inr pf'" "width pf' = width pf" "height pf' = width pf"
    and p: "points pf' =
       concat (map (\<lambda>i. map (\<lambda>j. Option.bind (?F i j) pickedPoint) [0..<?w]) [0..<?w])"
    and b: "buffer pf' =
       map (\<lambda>i. map (\<lambda>j. Some (case ?F i j of None \<Rightarrow> 0 | Some h \<Rightarrow> 1)) [0..<?w]) [0..<?w]"
    and g: "graph pf' = Some \<lparr> grid =
       map (\<lambda>i. map (\<lambda>j. \<lparr> node_x = i, node_y = j, weight = buffer pf' ! i ! j,
                          point = readPoint (points pf') (j * ?w + i) \<rparr>)
                 [0..<?w]) [0..<?w],
       diagonal = False \<rparr>"
    by blast
  let ?n = "\<lambda>i j. \<lparr> node_x = i, node_y = j, weight = buffer pf' ! i ! j,
                      point = readPoint (points pf') (j * ?w + i) \<rparr>"
  let ?g = "\<lparr> grid = map (\<lambda>i. map (?n i) [0..<?w]) [0..<?w], diagonal = False \<rparr>"
  have dg: "diagonal ?g = False" by simp
  have lb: "length (buffer pf') = ?w" unfolding b by simp
  have lg: "length (grid ?g) = ?w" by simp
  have lc: "length (concat (grid ?g)) = ?w * ?w"
    using length_concat_rows [of ?n ?w ?w] by simp
  have len: "length (points pf') = ?w * ?w"
    unfolding p by (rule length_concat_rows)
  have nodes: "map (\<lambda>n. (node_x n, node_y n)) (concat (grid ?g))
       = List.product [0..<?w] [0..<?w]"
    by (simp add: map_concat product_concat_map comp_def)
  have rows: "\<forall>x < ?w. length (grid ?g ! x) = ?w \<and> length (buffer pf' ! x) = ?w"
    unfolding b by simp
  have walk: "cellWalkable pf' x y = (?F x y \<noteq> None)" if "x < ?w" "y < ?w" for x y
  proof -
    have "buffer pf' ! x ! y = Some (case ?F x y of None \<Rightarrow> 0 | Some h \<Rightarrow> 1)"
      unfolding b using that by simp
    then show ?thesis unfolding cellWalkable_def by (simp split: option.split)
  qed
  have cell: "nodeAt ?g (x, y) = Some (grid ?g ! x ! y) \<and>
        node_x (grid ?g ! x ! y) = x \<and> node_y (grid ?g ! x ! y) = y \<and>
        weight (grid ?g ! x ! y) = buffer pf' ! x ! y \<and>
        cellWalkable pf' x y = (?F x y \<noteq> None) \<and>
        point (grid ?g ! x ! y) = points pf' ! (y * ?w + x) \<and>
        point (grid ?g ! x ! y) = Option.bind (?F y x) pickedPoint"
    if xy: "x < ?w" "y < ?w" for x y
  proof -
    have "Suc y \<le> ?w" using xy(2) by simp
    then have "Suc y * ?w \<le> ?w * ?w" by (rule mult_le_mono1)
    then have inr: "y * ?w + x < length (points pf')" using xy(1) len by simp
    have pt: "points pf' ! (y * ?w + x) = Option.bind (?F y x) pickedPoint"
      unfolding p by (rule nth_concat_rows [OF xy(2,1)])
    have rp: "readPoint (points pf') (y * ?w + x) = points pf' ! (y * ?w + x)"
      using inr by (simp add: readPoint_def)
    have nd: "grid ?g ! x ! y = ?n x y" using xy by simp
    have na: "nodeAt ?g (x, y) = Some (?n x y)" using xy by (simp add: nodeAt_rows)
    show ?thesis unfolding nd na using walk [OF xy] rp pt by simp
  qed
  then have cells: "\<forall>x < ?w. \<forall>y < ?w.
        nodeAt ?g (x, y) = Some (grid ?g ! x ! y) \<and>
        node_x (grid ?g ! x ! y) = x \<and> node_y (grid ?g ! x ! y) = y \<and>
        weight (grid ?g ! x ! y) = buffer pf' ! x ! y \<and>
        cellWalkable pf' x y = (?F x y \<noteq> None) \<and>
        point (grid ?g ! x ! y) = points pf' ! (y * ?w + x) \<and>
        point (grid ?g ! x ! y) = Option.bind (?F y x) pickedPoint"
    by blast
  have edges: "\<forall>a b. edge ?g a b =
        (fst a < ?w \<and> snd a < ?w \<and> fst b < ?w \<and> snd b < ?w \<and>
         \<bar>int (fst a) - int (fst b)\<bar> + \<bar>int (snd a) - int (snd b)\<bar> = 1 \<and>
         cellWalkable pf' (fst a) (snd a) \<and> cellWalkable pf' (fst b) (snd b))"
    unfolding edge_def nodeAt_rows
    by (auto simp add: adjacent_def Let_def cellWalkable_def)
  show ?thesis
    by (intro exI [of _ pf'] exI [of _ ?g] conjI r g dg lb lg lc nodes rows cells edges)
qed

text \<open>The same on the example.\<close>

theorem fill_graph_witness:
  "0 \<le> width freshFinder \<and> width freshFinder < 2 ^ 31 \<and>
   (\<exists>pf' g. fill quadrantSurface [centredMesh] None None freshFinder = Inr pf' \<and> graph pf' = Some g \<and> diagonal g = False \<and>
     width pf' = width freshFinder \<and> height pf' = width freshFinder \<and>
     length (buffer pf') = nat (width freshFinder) \<and> length (grid g) = nat (width freshFinder) \<and>
     length (concat (grid g)) = nat (width freshFinder) * nat (width freshFinder) \<and>
     map (\<lambda>n. (node_x n, node_y n)) (concat (grid g))
       = List.product [0..<nat (width freshFinder)] [0..<nat (width freshFinder)] \<and>
     (\<forall>x < nat (width freshFinder).
        length (grid g ! x) = nat (width freshFinder) \<and> length (buffer pf' ! x) = nat (width freshFinder)) \<and>
     (\<forall>x < nat (width freshFinder). \<forall>y < nat (width freshFinder).
        nodeAt g (x, y) = Some (grid g ! x ! y) \<and>
        node_x (grid g ! x ! y) = x \<and> node_y (grid g ! x ! y) = y \<and>
        weight (grid g ! x ! y) = buffer pf' ! x ! y \<and>
        cellWalkable pf' x y =
          (find hit (quadrantSurface (cellRay (combinedBounds [centredMesh]) (width freshFinder) (width freshFinder) None None x y) [centredMesh]) \<noteq> None) \<and>
        point (grid g ! x ! y) = points pf' ! (y * nat (width freshFinder) + x) \<and>
        point (grid g ! x ! y) =
          Option.bind (find hit (quadrantSurface (cellRay (combinedBounds [centredMesh]) (width freshFinder) (width freshFinder) None None y x) [centredMesh]))
            pickedPoint) \<and>
     (\<forall>a b. edge g a b =
        (fst a < nat (width freshFinder) \<and> snd a < nat (width freshFinder) \<and>
         fst b < nat (width freshFinder) \<and> snd b < nat (width freshFinder) \<and>
         \<bar>int (fst a) - int (fst b)\<bar> + \<bar>int (snd a) - int (snd b)\<bar> = 1 \<and>
         cellWalkable pf' (fst a) (snd a) \<and> cellWalkable pf' (fst b) (snd b))))"
proof -
  have w: "0 \<le> width freshFinder" "width freshFinder < 2 ^ 31"
    by (simp_all add: freshFinder_def)
  show ?thesis
    by (intro conjI w fill_graph [OF w])
qed

end
